theory Spec2Isabelle
  imports Complex_Main "HOL-Library.Option_ord"
begin

section \<open>Documents of the two collections\<close>

text \<open>
  A document of the collection \<open>crawler_queue\<close>. The drafts that the crawler inserts carry
  the fields \<open>data\<close> and \<open>task\<close> only; \<open>priority\<close>, \<open>start_time\<close>, \<open>end_time\<close> and \<open>error\<close>
  are absent (\<open>None\<close>) until an update sets them. Timestamps are the values of
  \<open>time.time()\<close>, read as real numbers. The store assigns \<open>_id\<close> (here \<open>task_id\<close>).
\<close>

record task_draft =
  data :: string
  task :: string

record task_doc = task_draft +
  task_id :: nat
  priority :: "int option"
  start_time :: "real option"
  end_time :: "real option"
  error :: "int option"

text \<open>The values of the enumeration \<open>CrawlTask\<close> (my_model/crawl_task.py).\<close>

definition SIMILAR :: string where "SIMILAR = ''CRAWL_SIMILAR''"
definition CREATOR :: string where "CREATOR = ''CRAWL_CREATOR''"
definition DETAILS :: string where "DETAILS = ''CRAWL_DETAILS''"

text \<open>
  A document of the collection \<open>playstore\<close>: the JSON of a \<open>DocV2\<close> message as the crawler
  dumps it (\<open>app_json\<close>), and the fields that later updates add. A field of the JSON that
  may be missing is an option; \<open>offer\<close> lists the \<open>micros\<close> of every offer. The version
  code is at the path \<open>details.appDetails.versionCode\<close>, where \<open>details\<close> may be missing,
  or \<open>appDetails\<close> in it, or the code itself.
\<close>

datatype app_details = NoDetails | NoAppDetails | AppDetails "int option"

record app_json =
  docid :: string
  creator :: "string option"
  details_appDetails :: app_details
  offer :: "string list"
  similar :: "string list option"
  preInstall :: "string list option"
  postInstall :: "string list option"
  device :: "string option"

record app_doc = app_json +
  app_id :: nat
  similarTo :: "string list option"
  download_start_time :: "real option"
  download_end_time :: "real option"

text \<open>What \<open>logging\<close> and \<open>print\<close> receive, as events rather than formatted text.\<close>

datatype log_event =
    InsertError string
  | TaskNotFound nat
  | AppNotFound nat
  | SimilarNotFound string
  | PriorityNotFound "string list"
  | UnknownCrawlTask string
  | NoCrawlTask
  | NoApkRemaining
  | Processing string string
  | Downloading string "int option"
  | DownloadFailed string
  | WriteFailed string
  | Interrupted

text \<open>
  The state the program works on: both collections in their natural (insertion) order,
  the next identifier the store hands out, the log, and the files of the output folder.
\<close>

record world =
  crawlqueue_col :: "task_doc list"
  playstore_col :: "app_doc list"
  next_oid :: nat
  logged :: "log_event list"
  files :: "(string \<times> nat list) list"

text \<open>
  The configuration (\<open>conf\<close>, \<open>play_conf\<close>), the faults of the store (the write errors
  other than a duplicate key that it answers a draft with), and \<open>apk_path\<close>: the path
  \<open>os.path.join(output_dir, sanitize_filename("{0}##{1}##{2}.apk".format(...)))\<close> that the
  download driver computes from the folder, \<open>docid\<close>, the version code and \<open>_id\<close>.
\<close>

record write_error =
  code :: int
  errmsg :: string

record config =
  max_task_duration_seconds :: int
  max_download_duration_seconds :: int
  emulated_device :: string
  task_fault :: "task_draft \<Rightarrow> write_error option"
  app_fault :: "app_json \<Rightarrow> write_error option"
  apk_path :: "string \<Rightarrow> string \<Rightarrow> int option \<Rightarrow> nat \<Rightarrow> string"

section \<open>The store's primitives\<close>

text \<open>
  \<open>find_one\<close> is the position of the first document, in natural order, that matches a
  filter; \<open>find_one_sorted\<close> is the position of the first document among the matching ones
  whose sort key is greatest (\<open>sort=[(key, DESCENDING)]\<close>). A missing field sorts below
  every number, which is the order of \<open>int option\<close> with \<open>None\<close> least.
\<close>

fun find_one :: "('d \<Rightarrow> bool) \<Rightarrow> 'd list \<Rightarrow> nat option" where
  "find_one P [] = None"
| "find_one P (d # ds) = (if P d then Some 0 else map_option Suc (find_one P ds))"

definition find_one_sorted :: "('d \<Rightarrow> bool) \<Rightarrow> ('d \<Rightarrow> 'k::linorder) \<Rightarrow> 'd list \<Rightarrow> nat option" where
  "find_one_sorted P key ds =
     (if filter P ds = [] then None
      else find_one (\<lambda>d. P d \<and> key d = Max (set (map key (filter P ds)))) ds)"

text \<open>
  \<open>find_one_and_update\<close> with the default \<open>return_document=BEFORE\<close>: the document found is
  returned as it was, and replaced in the collection by its update.
\<close>

definition find_one_and_update :: "nat option \<Rightarrow> ('d \<Rightarrow> 'd) \<Rightarrow> 'd list \<Rightarrow> 'd option \<times> 'd list" where
  "find_one_and_update found upd ds =
     (case found of
        None \<Rightarrow> (None, ds)
      | Some i \<Rightarrow> (Some (ds ! i), ds[i := upd (ds ! i)]))"

section \<open>The crawl queue (db_interface.py)\<close>

text \<open>
  The filter \<open>{"start_time": None}\<close> matches a document whose \<open>start_time\<close> is missing;
  \<open>{"start_time": {"$lt": deadline}, "end_time": None}\<close> one whose \<open>start_time\<close> is a number
  below the deadline and whose \<open>end_time\<close> is missing.
\<close>

definition not_started :: "task_doc \<Rightarrow> bool" where
  "not_started d = (start_time d = None)"

definition expired :: "real \<Rightarrow> task_doc \<Rightarrow> bool" where
  "expired deadline d =
     ((case start_time d of None \<Rightarrow> False | Some s \<Rightarrow> s < deadline) \<and> end_time d = None)"

text \<open>
  \<open>get_crawl_task\<close> reads the clock up to three times: \<open>now1\<close> for the first update,
  \<open>now2\<close> for the deadline and \<open>now3\<close> for the second update.
\<close>

definition get_crawl_task :: "config \<Rightarrow> real \<Rightarrow> real \<Rightarrow> real \<Rightarrow> world \<Rightarrow> task_doc option \<times> world" where
  "get_crawl_task conf now1 now2 now3 w =
     (case find_one_and_update (find_one_sorted not_started priority (crawlqueue_col w))
             (\<lambda>d. d\<lparr>start_time := Some now1\<rparr>) (crawlqueue_col w) of
        (Some document_before, col) \<Rightarrow> (Some document_before, w\<lparr>crawlqueue_col := col\<rparr>)
      | (None, _) \<Rightarrow>
          (let task_max_duration = max_task_duration_seconds conf;
               task_deadline = now2 - real_of_int task_max_duration
           in case find_one_and_update (find_one (expired task_deadline) (crawlqueue_col w))
                     (\<lambda>d. d\<lparr>start_time := Some now3\<rparr>) (crawlqueue_col w) of
                (document_before, col) \<Rightarrow> (document_before, w\<lparr>crawlqueue_col := col\<rparr>)))"

text \<open>
  \<open>set_crawl_task_completed\<close>: \<open>if error\<close> is false for \<open>None\<close> and for the status \<open>0\<close>,
  and then only \<open>end_time\<close> is set.
\<close>

definition set_crawl_task_completed :: "nat \<Rightarrow> int option \<Rightarrow> real \<Rightarrow> world \<Rightarrow> world" where
  "set_crawl_task_completed tid err now w =
     (let updated_doc =
            (if err \<noteq> None \<and> err \<noteq> Some 0
             then (\<lambda>d. d\<lparr>end_time := Some now, error := err\<rparr>)
             else (\<lambda>d. d\<lparr>end_time := Some now\<rparr>))
      in case find_one_and_update (find_one (\<lambda>d. task_id d = tid) (crawlqueue_col w))
                updated_doc (crawlqueue_col w) of
           (None, _) \<Rightarrow> w\<lparr>logged := logged w @ [TaskNotFound tid]\<rparr>
         | (Some document_before, col) \<Rightarrow> w\<lparr>crawlqueue_col := col\<rparr>)"

definition reset_crawl_task :: "nat \<Rightarrow> world \<Rightarrow> world" where
  "reset_crawl_task tid w =
     (case find_one_and_update (find_one (\<lambda>d. task_id d = tid) (crawlqueue_col w))
             (\<lambda>d. d\<lparr>start_time := None, end_time := None\<rparr>) (crawlqueue_col w) of
        (None, _) \<Rightarrow> w\<lparr>logged := logged w @ [TaskNotFound tid]\<rparr>
      | (Some document_before, col) \<Rightarrow> w\<lparr>crawlqueue_col := col\<rparr>)"

text \<open>\<open>update_many\<close> updates every matching document; \<open>matched_count\<close> is their number.\<close>

definition update_many :: "('d \<Rightarrow> bool) \<Rightarrow> ('d \<Rightarrow> 'd) \<Rightarrow> 'd list \<Rightarrow> nat \<times> 'd list" where
  "update_many P upd ds = (length (filter P ds), map (\<lambda>d. if P d then upd d else d) ds)"

definition set_crawl_task_priority :: "string \<Rightarrow> string list \<Rightarrow> int \<Rightarrow> world \<Rightarrow> world" where
  "set_crawl_task_priority task_type datas prio w =
     (case update_many (\<lambda>d. task d = task_type \<and> data d \<in> set datas)
             (\<lambda>d. d\<lparr>priority := Some prio\<rparr>) (crawlqueue_col w) of
        (matched_count, col) \<Rightarrow>
          (if matched_count = 0
           then w\<lparr>crawlqueue_col := col, logged := logged w @ [PriorityNotFound datas]\<rparr>
           else w\<lparr>crawlqueue_col := col\<rparr>))"

section \<open>Bulk insertion\<close>

text \<open>
  \<open>insert_many(entries, False)\<close> is an unordered bulk insert: every draft is attempted on
  its own. A draft whose unique-index key is already in the collection fails with code
  11000, a draft the store rejects for another reason (\<open>fault\<close>) fails with that error, and
  every other draft is appended under a fresh identifier. The write errors are what
  \<open>BulkWriteError.details['writeErrors']\<close> lists.
\<close>

definition duplicate_key :: write_error where
  "duplicate_key = \<lparr>code = 11000, errmsg = ''E11000 duplicate key error''\<rparr>"

fun insert_many :: "('d \<Rightarrow> 'k) \<Rightarrow> ('j \<Rightarrow> write_error option) \<Rightarrow> (nat \<Rightarrow> 'j \<Rightarrow> 'd) \<Rightarrow> 'j list
    \<Rightarrow> 'd list \<Rightarrow> nat \<Rightarrow> 'd list \<times> nat \<times> write_error list" where
  "insert_many key fault mk [] col n = (col, n, [])"
| "insert_many key fault mk (j # js) col n =
     (case fault j of
        Some e \<Rightarrow>
          (case insert_many key fault mk js col (Suc n) of
             (col', n', errs) \<Rightarrow> (col', n', e # errs))
      | None \<Rightarrow>
          (if key (mk n j) \<in> set (map key col)
           then (case insert_many key fault mk js col (Suc n) of
                   (col', n', errs) \<Rightarrow> (col', n', duplicate_key # errs))
           else insert_many key fault mk js (col @ [mk n j]) (Suc n)))"

text \<open>
  \<open>dump_to_mongodb\<close> returns at once on an empty list; otherwise it inserts, and of the
  write errors it logs those whose code is not 11000.
\<close>

definition dump_to_mongodb :: "('d \<Rightarrow> 'k) \<Rightarrow> ('j \<Rightarrow> write_error option) \<Rightarrow> (nat \<Rightarrow> 'j \<Rightarrow> 'd) \<Rightarrow> 'j list
    \<Rightarrow> 'd list \<Rightarrow> nat \<Rightarrow> log_event list \<Rightarrow> 'd list \<times> nat \<times> log_event list" where
  "dump_to_mongodb key fault mk entries col n lg =
     (if entries = [] then (col, n, lg)
      else case insert_many key fault mk entries col n of
             (col', n', errs) \<Rightarrow>
               (col', n', lg @ map (\<lambda>err. InsertError (errmsg err)) (filter (\<lambda>err. code err \<noteq> 11000) errs)))"

text \<open>The unique indexes declared at the top of db_interface.py, and the stored form of a draft.\<close>

definition task_key :: "task_doc \<Rightarrow> string \<times> string" where
  "task_key d = (data d, task d)"

text \<open>In an index, a field that is missing anywhere on its path counts as null.\<close>

definition index_versionCode :: "app_details \<Rightarrow> int option" where
  "index_versionCode a = (case a of NoDetails \<Rightarrow> None | NoAppDetails \<Rightarrow> None | AppDetails v \<Rightarrow> v)"

definition app_key :: "app_doc \<Rightarrow> string \<times> int option \<times> string option" where
  "app_key d = (docid d, index_versionCode (details_appDetails d), device d)"

definition new_task :: "nat \<Rightarrow> task_draft \<Rightarrow> task_doc" where
  "new_task n j = \<lparr>data = data j, task = task j, task_id = n, priority = None,
                   start_time = None, end_time = None, error = None\<rparr>"

definition new_app :: "nat \<Rightarrow> app_json \<Rightarrow> app_doc" where
  "new_app n j = \<lparr>docid = docid j, creator = creator j, details_appDetails = details_appDetails j,
                  offer = offer j,
                  similar = similar j, preInstall = preInstall j, postInstall = postInstall j,
                  device = device j, app_id = n, similarTo = None,
                  download_start_time = None, download_end_time = None\<rparr>"

definition dump :: "config \<Rightarrow> app_json list \<Rightarrow> world \<Rightarrow> world" where
  "dump conf entries w =
     (case dump_to_mongodb app_key (app_fault conf) new_app entries (playstore_col w) (next_oid w) (logged w) of
        (col, n, lg) \<Rightarrow> w\<lparr>playstore_col := col, next_oid := n, logged := lg\<rparr>)"

definition enqueue_crawl_tasks :: "config \<Rightarrow> task_draft list \<Rightarrow> world \<Rightarrow> world" where
  "enqueue_crawl_tasks conf crawl_tasks w =
     (case dump_to_mongodb task_key (task_fault conf) new_task crawl_tasks (crawlqueue_col w) (next_oid w) (logged w) of
        (col, n, lg) \<Rightarrow> w\<lparr>crawlqueue_col := col, next_oid := n, logged := lg\<rparr>)"

definition set_similar_apps :: "string \<Rightarrow> string list \<Rightarrow> world \<Rightarrow> world" where
  "set_similar_apps target_package packages w =
     (case update_many (\<lambda>d. docid d = target_package)
             (\<lambda>d. d\<lparr>similarTo := Some packages\<rparr>) (playstore_col w) of
        (matched_count, col) \<Rightarrow>
          (if matched_count = 0
           then w\<lparr>playstore_col := col, logged := logged w @ [SimilarNotFound target_package]\<rparr>
           else w\<lparr>playstore_col := col\<rparr>))"

section \<open>The download lease on the catalog (db_interface.py)\<close>

text \<open>\<open>{"offer": {"$elemMatch": {"micros": "0"}}}\<close>: some offer costs nothing.\<close>

definition free_offer :: "app_doc \<Rightarrow> bool" where
  "free_offer d = (''0'' \<in> set (offer d))"

definition get_app_undownloaded :: "config \<Rightarrow> bool \<Rightarrow> real \<Rightarrow> real \<Rightarrow> real \<Rightarrow> world \<Rightarrow> app_doc option \<times> world" where
  "get_app_undownloaded conf free_only now1 now2 now3 w =
     (case find_one_and_update
             (find_one (\<lambda>d. download_start_time d = None \<and> (if free_only then free_offer d else True)) (playstore_col w))
             (\<lambda>d. d\<lparr>download_start_time := Some now1\<rparr>) (playstore_col w) of
        (Some document_before, col) \<Rightarrow> (Some document_before, w\<lparr>playstore_col := col\<rparr>)
      | (None, _) \<Rightarrow>
          (let analysis_max_duration = max_download_duration_seconds conf;
               analysis_deadline = now2 - real_of_int analysis_max_duration
           in case find_one_and_update
                     (find_one (\<lambda>d. (case download_start_time d of None \<Rightarrow> False | Some s \<Rightarrow> s < analysis_deadline)
                                     \<and> download_end_time d = None \<and> (if free_only then free_offer d else True)) (playstore_col w))
                     (\<lambda>d. d\<lparr>download_start_time := Some now3\<rparr>) (playstore_col w) of
                (document_before, col) \<Rightarrow> (document_before, w\<lparr>playstore_col := col\<rparr>)))"

definition set_app_downloaded :: "nat \<Rightarrow> real \<Rightarrow> world \<Rightarrow> world" where
  "set_app_downloaded aid now w =
     (case find_one_and_update (find_one (\<lambda>d. app_id d = aid) (playstore_col w))
             (\<lambda>d. d\<lparr>download_end_time := Some now\<rparr>) (playstore_col w) of
        (None, _) \<Rightarrow> w\<lparr>logged := logged w @ [AppNotFound aid]\<rparr>
      | (Some document_before, col) \<Rightarrow> w\<lparr>playstore_col := col\<rparr>)"

definition reset_app_download :: "nat \<Rightarrow> world \<Rightarrow> world" where
  "reset_app_download aid w =
     (case find_one_and_update (find_one (\<lambda>d. app_id d = aid) (playstore_col w))
             (\<lambda>d. d\<lparr>download_start_time := None, download_end_time := None\<rparr>) (playstore_col w) of
        (None, _) \<Rightarrow> w\<lparr>logged := logged w @ [AppNotFound aid]\<rparr>
      | (Some document_before, col) \<Rightarrow> w\<lparr>playstore_col := col\<rparr>)"

section \<open>The catalog client\<close>

text \<open>
  The client \<open>play_store\<close> is outside the repository; it is the answers it gives. A request
  raises \<open>RequestError\<close> with an HTTP status (\<open>Inl\<close>) or returns: \<open>listSimilar\<close> and \<open>search\<close>
  the documents of all pages, \<open>details\<close> (here \<open>details_request\<close>) the document and the package ids on its similar,
  pre-install and post-install pages (empty where it has no such page), \<open>download\<close> the
  bytes of the binary, \<open>None\<close> when there is no payload, or \<open>DownloadError\<close> (\<open>Inl\<close>).
\<close>

record play_store =
  listSimilar :: "string \<Rightarrow> int + app_json list"
  search :: "string \<Rightarrow> int + app_json list"
  details_request :: "string \<Rightarrow> int + app_json \<times> string list \<times> string list \<times> string list"
  download :: "string \<Rightarrow> int option \<Rightarrow> string + nat list option"

datatype exn = RequestError int | KeyError string | IOError | AttributeError | KeyboardInterrupt

section \<open>Graph expansion (main.py)\<close>

text \<open>
  \<open>dump_data\<close>: \<open>entry.doc.creator\<close> reads the message, where a field that is not set is
  the empty string.
\<close>

definition dump_data :: "config \<Rightarrow> app_json list \<Rightarrow> world \<Rightarrow> world" where
  "dump_data conf bulk_details w =
     (let entries = map (\<lambda>entry. entry\<lparr>device := Some (emulated_device conf)\<rparr>) bulk_details;
          crawl_tasks = concat (map (\<lambda>entry.
             [\<lparr>data = (case creator entry of None \<Rightarrow> [] | Some c \<Rightarrow> c), task = CREATOR\<rparr>,
              \<lparr>data = docid entry, task = SIMILAR\<rparr>]) bulk_details)
      in enqueue_crawl_tasks conf crawl_tasks (dump conf entries w))"

text \<open>
  \<open>dump_data_details\<close> in three parts: the list \<open>packages_found\<close>, the drafts it builds
  (\<open>details["creator"]\<close> raises \<open>KeyError\<close> when the key is missing, before anything is
  written), and the two writes.
\<close>

definition packages_found :: "app_json \<Rightarrow> string list" where
  "packages_found details =
     (case similar details of None \<Rightarrow> [] | Some ps \<Rightarrow> ps) @
     (case preInstall details of None \<Rightarrow> [] | Some ps \<Rightarrow> ps) @
     (case postInstall details of None \<Rightarrow> [] | Some ps \<Rightarrow> ps)"

definition details_drafts :: "config \<Rightarrow> app_json \<Rightarrow> exn + app_json list \<times> task_draft list" where
  "details_drafts conf details =
     (case creator details of
        None \<Rightarrow> Inl (KeyError ''creator'')
      | Some c \<Rightarrow>
          Inr ([details\<lparr>device := Some (emulated_device conf)\<rparr>],
               \<lparr>data = c, task = CREATOR\<rparr> #
               map (\<lambda>package. \<lparr>data = package, task = DETAILS\<rparr>) (packages_found details)))"

definition dump_data_details :: "config \<Rightarrow> app_json \<Rightarrow> world \<Rightarrow> exn + world" where
  "dump_data_details conf details w =
     (case details_drafts conf details of
        Inl e \<Rightarrow> Inl e
      | Inr (entries, crawl_tasks) \<Rightarrow> Inr (enqueue_crawl_tasks conf crawl_tasks (dump conf entries w)))"

section \<open>The crawl tasks (main.py)\<close>

definition crawl_similar :: "config \<Rightarrow> play_store \<Rightarrow> string \<Rightarrow> world \<Rightarrow> exn + world" where
  "crawl_similar conf ps package w =
     (case listSimilar ps package of
        Inl http_status \<Rightarrow> Inl (RequestError http_status)
      | Inr bulk \<Rightarrow> Inr (dump_data conf bulk (set_similar_apps package (map docid bulk) w)))"

definition crawl_creator :: "config \<Rightarrow> play_store \<Rightarrow> string \<Rightarrow> world \<Rightarrow> exn + world" where
  "crawl_creator conf ps creator_name w =
     (case search ps creator_name of
        Inl http_status \<Rightarrow> Inl (RequestError http_status)
      | Inr bulk \<Rightarrow> Inr (dump_data conf bulk w))"

definition crawl_details :: "config \<Rightarrow> play_store \<Rightarrow> string \<Rightarrow> world \<Rightarrow> exn + world" where
  "crawl_details conf ps package w =
     (case details_request ps package of
        Inl http_status \<Rightarrow> Inl (RequestError http_status)
      | Inr (doc, sim, pre, post) \<Rightarrow>
          dump_data_details conf
            (doc\<lparr>similar := Some sim, preInstall := Some pre, postInstall := Some post\<rparr>) w)"

text \<open>The dispatch table \<open>switcher\<close>; its default only logs a warning.\<close>

definition execute_crawl_task :: "config \<Rightarrow> play_store \<Rightarrow> string \<Rightarrow> string \<Rightarrow> world \<Rightarrow> exn + world" where
  "execute_crawl_task conf ps task_type task_data w =
     (if task_type = SIMILAR then crawl_similar conf ps task_data w
      else if task_type = CREATOR then crawl_creator conf ps task_data w
      else if task_type = DETAILS then crawl_details conf ps task_data w
      else Inr (w\<lparr>logged := logged w @ [UnknownCrawlTask task_type]\<rparr>))"

section \<open>The crawl driver (main.py)\<close>

text \<open>
  The writes that executing a task makes on the store, in the order of the source, for
  the places between them where a signal can arrive: \<open>dump_data\<close> dumps and then
  enqueues, \<open>crawl_similar\<close> sets the similar packages before that, and the default of the
  dispatch table writes its warning. An exception is raised before the first write.
\<close>

definition dump_data_writes :: "config \<Rightarrow> app_json list \<Rightarrow> (world \<Rightarrow> world) list" where
  "dump_data_writes conf bulk_details =
     (let entries = map (\<lambda>entry. entry\<lparr>device := Some (emulated_device conf)\<rparr>) bulk_details;
          crawl_tasks = concat (map (\<lambda>entry.
             [\<lparr>data = (case creator entry of None \<Rightarrow> [] | Some c \<Rightarrow> c), task = CREATOR\<rparr>,
              \<lparr>data = docid entry, task = SIMILAR\<rparr>]) bulk_details)
      in [dump conf entries, enqueue_crawl_tasks conf crawl_tasks])"

definition crawl_writes :: "config \<Rightarrow> play_store \<Rightarrow> string \<Rightarrow> string \<Rightarrow> exn + (world \<Rightarrow> world) list" where
  "crawl_writes conf ps task_type task_data =
     (if task_type = SIMILAR then
        (case listSimilar ps task_data of
           Inl http_status \<Rightarrow> Inl (RequestError http_status)
         | Inr bulk \<Rightarrow> Inr (set_similar_apps task_data (map docid bulk) # dump_data_writes conf bulk))
      else if task_type = CREATOR then
        (case search ps task_data of
           Inl http_status \<Rightarrow> Inl (RequestError http_status)
         | Inr bulk \<Rightarrow> Inr (dump_data_writes conf bulk))
      else if task_type = DETAILS then
        (case details_request ps task_data of
           Inl http_status \<Rightarrow> Inl (RequestError http_status)
         | Inr (doc, sim, pre, post) \<Rightarrow>
             (case details_drafts conf
                     (doc\<lparr>similar := Some sim, preInstall := Some pre, postInstall := Some post\<rparr>) of
                Inl e \<Rightarrow> Inl e
              | Inr (entries, crawl_tasks) \<Rightarrow> Inr [dump conf entries, enqueue_crawl_tasks conf crawl_tasks]))
      else Inr [\<lambda>w. w\<lparr>logged := logged w @ [UnknownCrawlTask task_type]\<rparr>])"

text \<open>
  One turn of the loop of \<open>crawl_playstore\<close> meets one \<open>tick\<close> of its environment: the
  clock readings of \<open>get_crawl_task\<close> and of \<open>set_crawl_task_completed\<close>, the catalog's
  answers, and where, if at all, \<open>KeyboardInterrupt\<close> arrives:
  \<^item> \<open>OutsideTry\<close>: at the head of the loop, outside the \<open>try\<close> block; nothing catches it.
  \<^item> \<open>BeforeClaim\<close>: inside the block, before \<open>get_crawl_task\<close> has written to the store.
  \<^item> \<open>InsideClaim\<close>: inside \<open>get_crawl_task\<close>, after the store has answered and written
    the lease, before the result is assigned: the handler finds \<open>task\<close> still \<open>None\<close>.
  \<^item> \<open>AfterClaim\<close>: the task is assigned and not yet executed.
  \<^item> \<open>DuringWork n\<close>: inside \<open>execute_crawl_task\<close>, after \<open>n\<close> of its writes (after all
    of them if they are fewer; after the catalog's \<open>RequestError\<close> if it raised one).
  \<^item> \<open>AfterWork\<close>: the task is executed and not yet marked completed.
  \<^item> \<open>AfterCompleted\<close>: \<open>set_crawl_task_completed\<close> has written, the block is not left.
  The handler prints its line, resets the task if \<open>task\<close> is set, and ends the loop.
  The loop runs as long as ticks are left (\<open>Running\<close> when they run out), stops on an
  empty queue (\<open>Exhausted\<close>) or on the signal (\<open>Cancelled\<close>), and an exception that nothing
  catches leaves it (\<open>Raised\<close>). A signal placed after a step that the turn does not reach
  does not arrive in that turn. The decorator \<open>retry\<close> of db_interface repeats a call that
  lost its connection; the calls here keep theirs.
\<close>

datatype signal =
    NoSignal | OutsideTry | BeforeClaim | InsideClaim | AfterClaim | DuringWork nat
  | AfterWork | AfterCompleted

definition during_work :: "signal \<Rightarrow> nat option" where
  "during_work s = (case s of DuringWork n \<Rightarrow> Some n | _ \<Rightarrow> None)"

datatype outcome = Running | Exhausted | Cancelled | Raised exn | Stuck

record tick =
  clock1 :: real
  clock2 :: real
  clock3 :: real
  clock4 :: real
  catalog :: play_store
  sigint :: signal

fun crawl_playstore :: "config \<Rightarrow> tick list \<Rightarrow> world \<Rightarrow> outcome \<times> world" where
  "crawl_playstore conf [] w = (Running, w)"
| "crawl_playstore conf (e # es) w =
     (if sigint e = OutsideTry then (Raised KeyboardInterrupt, w)
      else if sigint e = BeforeClaim then (Cancelled, w\<lparr>logged := logged w @ [Interrupted]\<rparr>)
      else case get_crawl_task conf (clock1 e) (clock2 e) (clock3 e) w of
        (found, w1) \<Rightarrow>
          (if sigint e = InsideClaim then (Cancelled, w1\<lparr>logged := logged w1 @ [Interrupted]\<rparr>)
           else case found of
             None \<Rightarrow> (Exhausted, w1\<lparr>logged := logged w1 @ [NoCrawlTask]\<rparr>)
           | Some t \<Rightarrow>
               (if sigint e = AfterClaim
                then (Cancelled, reset_crawl_task (task_id t) (w1\<lparr>logged := logged w1 @ [Interrupted]\<rparr>))
                else
                  (let w2 = w1\<lparr>logged := logged w1 @ [Processing (task t) (data t)]\<rparr> in
                   case during_work (sigint e) of
                     Some n \<Rightarrow>
                       (case crawl_writes conf (catalog e) (task t) (data t) of
                          Inl (RequestError http_status) \<Rightarrow>
                            (Cancelled, reset_crawl_task (task_id t) (w2\<lparr>logged := logged w2 @ [Interrupted]\<rparr>))
                        | Inl other \<Rightarrow> (Raised other, w2)
                        | Inr writes \<Rightarrow>
                            (let w3 = fold (\<lambda>write. write) (take n writes) w2 in
                             (Cancelled, reset_crawl_task (task_id t) (w3\<lparr>logged := logged w3 @ [Interrupted]\<rparr>))))
                   | None \<Rightarrow>
                       (case (case execute_crawl_task conf (catalog e) (task t) (data t) w2 of
                                Inl (RequestError http_status) \<Rightarrow> Inr (Some http_status, w2)
                              | Inl other \<Rightarrow> Inl other
                              | Inr w3 \<Rightarrow> Inr (None, w3)) of
                          Inl other \<Rightarrow> (Raised other, w2)
                        | Inr (err, w3) \<Rightarrow>
                            (if sigint e = AfterWork
                             then (Cancelled, reset_crawl_task (task_id t) (w3\<lparr>logged := logged w3 @ [Interrupted]\<rparr>))
                             else
                               (let w4 = set_crawl_task_completed (task_id t) err (clock4 e) w3 in
                                if sigint e = AfterCompleted
                                then (Cancelled, reset_crawl_task (task_id t) (w4\<lparr>logged := logged w4 @ [Interrupted]\<rparr>))
                                else crawl_playstore conf es w4)))))))"

section \<open>The download driver (main.py)\<close>

text \<open>
  \<open>download_apk\<close>: \<open>DownloadError\<close> is caught and logged; \<open>not data\<close> holds for no payload
  and for an empty one, and then nothing is written; otherwise the bytes are written to
  the temporary path and renamed to \<open>output_path\<close>, which replaces a file of that name.
  \<open>io_fails\<close> says whether this write raises \<open>IOError\<close>.
\<close>

definition write_file :: "string \<Rightarrow> nat list \<Rightarrow> (string \<times> nat list) list \<Rightarrow> (string \<times> nat list) list" where
  "write_file path bytes fs = (path, bytes) # filter (\<lambda>f. fst f \<noteq> path) fs"

definition download_apk :: "play_store \<Rightarrow> string \<Rightarrow> int option \<Rightarrow> string \<Rightarrow> bool \<Rightarrow> world \<Rightarrow> exn + world" where
  "download_apk ps package version_code output_path io_fails w =
     (case download ps package version_code of
        Inl msg \<Rightarrow> Inr (w\<lparr>logged := logged w @ [DownloadFailed msg]\<rparr>)
      | Inr None \<Rightarrow> Inr w
      | Inr (Some bytes) \<Rightarrow>
          (if bytes = [] then Inr w
           else if io_fails then Inl IOError
           else Inr (w\<lparr>files := write_file output_path bytes (files w)\<rparr>)))"

text \<open>
  The inner loop of \<open>create_apks_pool\<close> calls \<open>download_apk\<close> again after every \<open>IOError\<close>:
  \<open>download_retry n\<close> is the loop when the first \<open>n\<close> writes fail and the next succeeds,
  and \<open>download_attempts\<close> adds the case that every write fails (\<open>None\<close> for the number of
  failures), where the loop is left only if no write is attempted.
\<close>

fun download_retry :: "play_store \<Rightarrow> string \<Rightarrow> int option \<Rightarrow> string \<Rightarrow> nat \<Rightarrow> world \<Rightarrow> world" where
  "download_retry ps package version_code output_path 0 w =
     (let w1 = w\<lparr>logged := logged w @ [Downloading package version_code]\<rparr> in
      case download_apk ps package version_code output_path False w1 of
        Inr w2 \<Rightarrow> w2
      | Inl _ \<Rightarrow> w1)"
| "download_retry ps package version_code output_path (Suc n) w =
     (let w1 = w\<lparr>logged := logged w @ [Downloading package version_code]\<rparr> in
      case download_apk ps package version_code output_path True w1 of
        Inr w2 \<Rightarrow> w2
      | Inl _ \<Rightarrow>
          download_retry ps package version_code output_path n
            (w1\<lparr>logged := logged w1 @ [WriteFailed output_path]\<rparr>))"

definition download_attempts :: "play_store \<Rightarrow> string \<Rightarrow> int option \<Rightarrow> string \<Rightarrow> nat option \<Rightarrow> world \<Rightarrow> world option" where
  "download_attempts ps package version_code output_path failures w =
     (case failures of
        Some n \<Rightarrow> Some (download_retry ps package version_code output_path n w)
      | None \<Rightarrow>
          (case download_apk ps package version_code output_path True
                  (w\<lparr>logged := logged w @ [Downloading package version_code]\<rparr>) of
             Inr w2 \<Rightarrow> Some w2
           | Inl _ \<Rightarrow> None))"

text \<open>
  A signal inside the inner loop: after \<open>n\<close> failed writes the next call of
  \<open>download_apk\<close> has fetched the payload and written the temporary file, and not yet
  renamed it (\<open>download_interrupted\<close>); if an earlier call made no write, the loop had
  ended there, and the state is the one after the loop.
\<close>

definition download_interrupted :: "play_store \<Rightarrow> string \<Rightarrow> int option \<Rightarrow> string \<Rightarrow> world \<Rightarrow> world" where
  "download_interrupted ps package version_code output_path w =
     (case download ps package version_code of
        Inl msg \<Rightarrow> w\<lparr>logged := logged w @ [DownloadFailed msg]\<rparr>
      | Inr None \<Rightarrow> w
      | Inr (Some bytes) \<Rightarrow>
          (if bytes = [] then w
           else w\<lparr>files := write_file (output_path @ ''.temp'') bytes (files w)\<rparr>))"

fun download_partial :: "play_store \<Rightarrow> string \<Rightarrow> int option \<Rightarrow> string \<Rightarrow> nat \<Rightarrow> world \<Rightarrow> world" where
  "download_partial ps package version_code output_path 0 w =
     download_interrupted ps package version_code output_path
       (w\<lparr>logged := logged w @ [Downloading package version_code]\<rparr>)"
| "download_partial ps package version_code output_path (Suc n) w =
     (let w1 = w\<lparr>logged := logged w @ [Downloading package version_code]\<rparr> in
      case download_apk ps package version_code output_path True w1 of
        Inr w2 \<Rightarrow> w2
      | Inl _ \<Rightarrow>
          download_partial ps package version_code output_path n
            (w1\<lparr>logged := logged w1 @ [WriteFailed output_path]\<rparr>))"

text \<open>
  \<open>next_apk.get('details').get('appDetails').get('versionCode')\<close>: \<open>get\<close> on a missing
  \<open>details\<close> or \<open>appDetails\<close> is a call on \<open>None\<close> and raises \<open>AttributeError\<close>; a missing
  version code is \<open>None\<close>.
\<close>

definition get_versionCode :: "app_details \<Rightarrow> exn + int option" where
  "get_versionCode a =
     (case a of NoDetails \<Rightarrow> Inl AttributeError | NoAppDetails \<Rightarrow> Inl AttributeError
      | AppDetails version_code \<Rightarrow> Inr version_code)"

text \<open>
  A turn of the loop of \<open>create_apks_pool\<close> meets a \<open>dtick\<close>: a tick, the size that
  \<open>get_folder_size\<close> reports, and the number of failing writes. The signal has the places
  of the crawl loop, with \<open>get_app_undownloaded\<close> as the claim, the inner loop as the work
  (\<open>DuringWork n\<close>: after \<open>n\<close> failed writes) and \<open>set_app_downloaded\<close> as the completion.
  When the folder is full the turn sleeps, and a signal inside the block then finds no
  record held. The \<open>AttributeError\<close> of the version code is not caught. \<open>Stuck\<close>: the
  inner loop never ends. The output folder exists (the \<open>os.mkdir\<close> before the loop is
  left out), and \<open>files\<close> holds what the driver itself wrote there.
\<close>

record dtick = tick +
  cur_size :: int
  write_failures :: "nat option"

fun create_apks_pool :: "config \<Rightarrow> string \<Rightarrow> int \<Rightarrow> dtick list \<Rightarrow> world \<Rightarrow> outcome \<times> world" where
  "create_apks_pool conf output_dir dir_size [] w = (Running, w)"
| "create_apks_pool conf output_dir dir_size (e # es) w =
     (if sigint e = OutsideTry then (Raised KeyboardInterrupt, w)
      else if sigint e = BeforeClaim then (Cancelled, w\<lparr>logged := logged w @ [Interrupted]\<rparr>)
      else if cur_size e < dir_size * 1000 * 1000 then
        (case get_app_undownloaded conf True (clock1 e) (clock2 e) (clock3 e) w of
           (found, w1) \<Rightarrow>
             (if sigint e = InsideClaim then (Cancelled, w1\<lparr>logged := logged w1 @ [Interrupted]\<rparr>)
              else case found of
                None \<Rightarrow> (Exhausted, w1\<lparr>logged := logged w1 @ [NoApkRemaining]\<rparr>)
              | Some next_apk \<Rightarrow>
                  (if sigint e = AfterClaim
                   then (Cancelled, reset_app_download (app_id next_apk) (w1\<lparr>logged := logged w1 @ [Interrupted]\<rparr>))
                   else
                     (case get_versionCode (details_appDetails next_apk) of
                        Inl raised \<Rightarrow> (Raised raised, w1)
                      | Inr version_code \<Rightarrow>
                          (let output_path = apk_path conf output_dir (docid next_apk) version_code (app_id next_apk) in
                           case during_work (sigint e) of
                             Some n \<Rightarrow>
                               (let w2 = download_partial (catalog e) (docid next_apk) version_code output_path n w1 in
                                (Cancelled, reset_app_download (app_id next_apk) (w2\<lparr>logged := logged w2 @ [Interrupted]\<rparr>)))
                           | None \<Rightarrow>
                               (case download_attempts (catalog e) (docid next_apk) version_code output_path
                                       (write_failures e) w1 of
                                  None \<Rightarrow> (Stuck, w1)
                                | Some w2 \<Rightarrow>
                                    (if sigint e = AfterWork
                                     then (Cancelled, reset_app_download (app_id next_apk) (w2\<lparr>logged := logged w2 @ [Interrupted]\<rparr>))
                                     else
                                       (let w3 = set_app_downloaded (app_id next_apk) (clock4 e) w2 in
                                        if sigint e = AfterCompleted
                                        then (Cancelled, reset_app_download (app_id next_apk) (w3\<lparr>logged := logged w3 @ [Interrupted]\<rparr>))
                                        else create_apks_pool conf output_dir dir_size es w3))))))))
      else if sigint e \<noteq> NoSignal then (Cancelled, w\<lparr>logged := logged w @ [Interrupted]\<rparr>)
      else create_apks_pool conf output_dir dir_size es w)"

section \<open>Priorities (main.py)\<close>

text \<open>The parameter \<open>priority=10\<close>: \<open>None\<close> is the call that leaves it out, as \<open>main\<close> does.\<close>

definition increase_priority :: "string list \<Rightarrow> int option \<Rightarrow> world \<Rightarrow> world" where
  "increase_priority packages prio w =
     set_crawl_task_priority DETAILS packages (case prio of None \<Rightarrow> 10 | Some p \<Rightarrow> p) w"

section \<open>File names (my_tools/file_tools.py)\<close>

text \<open>
  A Python string is a list of code points. \<open>str.isalnum\<close> and the whitespace that
  \<open>str.rstrip()\<close> removes are tables of the Unicode database: they are the parameters
  \<open>isalnum\<close> and \<open>isspace\<close>. \<open>keep_characters\<close> is the space, the dot and the underscore.
\<close>

definition keep_characters :: "nat list" where
  "keep_characters = [32, 46, 95]"

definition rstrip :: "(nat \<Rightarrow> bool) \<Rightarrow> nat list \<Rightarrow> nat list" where
  "rstrip isspace s = rev (dropWhile isspace (rev s))"

definition sanitize_filename :: "(nat \<Rightarrow> bool) \<Rightarrow> (nat \<Rightarrow> bool) \<Rightarrow> nat list \<Rightarrow> nat list" where
  "sanitize_filename isalnum isspace filename =
     rstrip isspace (filter (\<lambda>c. isalnum c \<or> c \<in> set keep_characters) filename)"

text \<open>The two tables on the ASCII range, where they are known in full.\<close>

definition ascii_isalnum :: "nat \<Rightarrow> bool" where
  "ascii_isalnum c = ((48 \<le> c \<and> c \<le> 57) \<or> (65 \<le> c \<and> c \<le> 90) \<or> (97 \<le> c \<and> c \<le> 122))"

definition ascii_isspace :: "nat \<Rightarrow> bool" where
  "ascii_isspace c = ((9 \<le> c \<and> c \<le> 13) \<or> (28 \<le> c \<and> c \<le> 32))"

section \<open>Concrete inputs\<close>

text \<open>A configuration with a lease of 60 seconds and a store that rejects nothing.\<close>

definition conf0 :: config where
  "conf0 = \<lparr>max_task_duration_seconds = 60, max_download_duration_seconds = 600,
            emulated_device = ''bacon'', task_fault = (\<lambda>_. None), app_fault = (\<lambda>_. None),
            apk_path = (\<lambda>dir name version n. dir @ ''/'' @ name)\<rparr>"

definition queued :: "nat \<Rightarrow> string \<Rightarrow> string \<Rightarrow> int option \<Rightarrow> real option \<Rightarrow> real option \<Rightarrow> task_doc" where
  "queued n kind subject p s e =
     \<lparr>data = subject, task = kind, task_id = n, priority = p, start_time = s, end_time = e, error = None\<rparr>"

definition world_of :: "task_doc list \<Rightarrow> app_doc list \<Rightarrow> world" where
  "world_of q c = \<lparr>crawlqueue_col = q, playstore_col = c, next_oid = length q + length c,
                   logged = [], files = []\<rparr>"

text \<open>
  Two workers and one task: the first claims it at time 0, the second claims it again at
  time 100 (the lease of 60 seconds has run out) and is interrupted, which resets the
  task; the first then reports its completion at time 120.
\<close>

definition stale_completion :: world where
  "stale_completion =
     set_crawl_task_completed 0 None 120
       (reset_crawl_task 0
         (snd (get_crawl_task conf0 100 100 100
           (snd (get_crawl_task conf0 0 0 0
             (enqueue_crawl_tasks conf0 [\<lparr>data = ''a'', task = DETAILS\<rparr>] (world_of [] [])))))))"

text \<open>A store that rejects every draft for the subject \<open>bad\<close>, with an error that is not a duplicate key.\<close>

definition conf_strict :: config where
  "conf_strict = conf0\<lparr>task_fault :=
     (\<lambda>j. if data j = ''bad'' then Some \<lparr>code = 121, errmsg = ''Document failed validation''\<rparr> else None)\<rparr>"

text \<open>A detail result with two similar packages, one pre-install package and a publisher.\<close>

definition detail0 :: app_json where
  "detail0 = \<lparr>docid = ''com.example.app'', creator = Some ''Acme'', details_appDetails = AppDetails (Some 7), offer = [''0''],
              similar = Some [''p1'', ''p2''], preInstall = Some [''p3''], postInstall = Some [],
              device = None\<rparr>"

text \<open>
  A catalog that answers every request with the status 404 and has no payload for any
  binary; a tick and a download tick without a signal; a free catalog record.
\<close>

definition ps_none :: play_store where
  "ps_none = \<lparr>listSimilar = (\<lambda>_. Inl 404), search = (\<lambda>_. Inl 404),
              details_request = (\<lambda>_. Inl 404), download = (\<lambda>_ _. Inr None)\<rparr>"

definition tick0 :: tick where
  "tick0 = \<lparr>clock1 = 100, clock2 = 101, clock3 = 102, clock4 = 103, catalog = ps_none, sigint = NoSignal\<rparr>"

definition dtick0 :: dtick where
  "dtick0 = \<lparr>clock1 = 100, clock2 = 101, clock3 = 102, clock4 = 103, catalog = ps_none, sigint = NoSignal,
             cur_size = 0, write_failures = Some 0\<rparr>"

definition app0 :: app_doc where
  "app0 = \<lparr>docid = ''com.example.app'', creator = Some ''Acme'', details_appDetails = AppDetails (Some 7), offer = [''0''],
           similar = None, preInstall = None, postInstall = None, device = Some ''bacon'',
           app_id = 0, similarTo = None, download_start_time = None, download_end_time = None\<rparr>"

section \<open>Facts about the store's primitives\<close>

lemma find_one_None: "find_one P ds = None \<longleftrightarrow> (\<forall>d\<in>set ds. \<not> P d)"
  by (induction ds) auto

lemma find_one_Some:
  "find_one P ds = Some i \<Longrightarrow> i < length ds \<and> P (ds ! i) \<and> (\<forall>j<i. \<not> P (ds ! j))"
proof (induction ds arbitrary: i)
  case Nil
  then show ?case by simp
next
  case (Cons d ds)
  show ?case
  proof (cases "P d")
    case True
    with Cons.prems show ?thesis by simp
  next
    case False
    with Cons.prems obtain k where k: "find_one P ds = Some k" "i = Suc k" by auto
    from Cons.IH [OF k(1)] False k(2) show ?thesis
      by (auto simp: less_Suc_eq_0_disj)
  qed
qed

lemma find_one_eq_Some:
  "find_one P ds = Some i \<longleftrightarrow> i < length ds \<and> P (ds ! i) \<and> (\<forall>j<i. \<not> P (ds ! j))"
proof
  assume "find_one P ds = Some i"
  then show "i < length ds \<and> P (ds ! i) \<and> (\<forall>j<i. \<not> P (ds ! j))" by (rule find_one_Some)
next
  assume r: "i < length ds \<and> P (ds ! i) \<and> (\<forall>j<i. \<not> P (ds ! j))"
  then have "find_one P ds \<noteq> None" by (auto simp: find_one_None)
  then obtain k where k: "find_one P ds = Some k" by auto
  from find_one_Some [OF k] r have "\<not> k < i" "\<not> i < k" by auto
  with k show "find_one P ds = Some i" by simp
qed

lemma find_one_sorted_None: "find_one_sorted P key ds = None \<longleftrightarrow> (\<forall>d\<in>set ds. \<not> P d)"
proof (cases "filter P ds = []")
  case True
  then show ?thesis by (simp add: find_one_sorted_def filter_empty_conv)
next
  case False
  let ?m = "Max (set (map key (filter P ds)))"
  have "?m \<in> set (map key (filter P ds))"
    using False by (intro Max_in) (auto simp: filter_empty_conv)
  then obtain d where "d \<in> set ds" "P d" "key d = ?m" by auto
  then have "find_one (\<lambda>d. P d \<and> key d = ?m) ds \<noteq> None"
    by (auto simp: find_one_None)
  with False show ?thesis by (auto simp: find_one_sorted_def filter_empty_conv)
qed

lemma find_one_sorted_Some:
  assumes "find_one_sorted P key ds = Some i"
  shows "i < length ds \<and> P (ds ! i) \<and> (\<forall>d\<in>set ds. P d \<longrightarrow> key d \<le> key (ds ! i))
         \<and> (\<forall>j<i. P (ds ! j) \<longrightarrow> key (ds ! j) < key (ds ! i))"
proof -
  let ?m = "Max (set (map key (filter P ds)))"
  from assms have f: "find_one (\<lambda>d. P d \<and> key d = ?m) ds = Some i"
    by (auto simp: find_one_sorted_def split: if_splits)
  from find_one_Some [OF f] have i: "i < length ds" "P (ds ! i)" "key (ds ! i) = ?m"
    and first: "\<forall>j<i. \<not> (P (ds ! j) \<and> key (ds ! j) = ?m)" by auto
  have le: "key d \<le> ?m" if "d \<in> set ds" "P d" for d
    using that by (intro Max_ge) auto
  have "key (ds ! j) < key (ds ! i)" if "j < i" "P (ds ! j)" for j
  proof -
    from that i(1) have "ds ! j \<in> set ds" by simp
    from le [OF this that(2)] first that i(3) show ?thesis by (simp add: less_le)
  qed
  with i le show ?thesis by auto
qed

lemma find_one_sorted_eq_Some:
  "find_one_sorted P key ds = Some i \<longleftrightarrow>
     i < length ds \<and> P (ds ! i) \<and> (\<forall>d\<in>set ds. P d \<longrightarrow> key d \<le> key (ds ! i))
     \<and> (\<forall>j<i. P (ds ! j) \<longrightarrow> key (ds ! j) < key (ds ! i))"
proof
  assume "find_one_sorted P key ds = Some i"
  then show "i < length ds \<and> P (ds ! i) \<and> (\<forall>d\<in>set ds. P d \<longrightarrow> key d \<le> key (ds ! i))
     \<and> (\<forall>j<i. P (ds ! j) \<longrightarrow> key (ds ! j) < key (ds ! i))"
    by (rule find_one_sorted_Some)
next
  assume r: "i < length ds \<and> P (ds ! i) \<and> (\<forall>d\<in>set ds. P d \<longrightarrow> key d \<le> key (ds ! i))
     \<and> (\<forall>j<i. P (ds ! j) \<longrightarrow> key (ds ! j) < key (ds ! i))"
  then have "find_one_sorted P key ds \<noteq> None" by (auto simp: find_one_sorted_None)
  then obtain k where k: "find_one_sorted P key ds = Some k" by auto
  note s = find_one_sorted_Some [OF k]
  have "\<not> k < i"
  proof
    assume "k < i"
    with r s have "key (ds ! k) < key (ds ! i)" by blast
    moreover from r s have "key (ds ! i) \<le> key (ds ! k)" by (meson nth_mem)
    ultimately show False by simp
  qed
  moreover have "\<not> i < k"
  proof
    assume "i < k"
    with r s have "key (ds ! i) < key (ds ! k)" by blast
    moreover from r s have "key (ds ! k) \<le> key (ds ! i)" by (meson nth_mem)
    ultimately show False by simp
  qed
  ultimately show "find_one_sorted P key ds = Some i" using k by simp
qed

lemma find_by_id_distinct:
  assumes "distinct (map f ds)" "i < length ds"
  shows "find_one (\<lambda>d. f d = f (ds ! i)) ds = Some i"
proof -
  have "f (ds ! j) \<noteq> f (ds ! i)" if "j < i" for j
  proof -
    from that assms(2) have *: "j < length (map f ds)" "i < length (map f ds)" "j \<noteq> i" by auto
    from assms(1) * have "map f ds ! j \<noteq> map f ds ! i"
      using nth_eq_iff_index_eq [of "map f ds" j i] by blast
    with that assms(2) show ?thesis by simp
  qed
  with assms(2) show ?thesis by (simp add: find_one_eq_Some)
qed

lemma expired_iff:
  "expired deadline d \<longleftrightarrow> (\<exists>s. start_time d = Some s \<and> s < deadline \<and> end_time d = None)"
  by (auto simp: expired_def split: option.splits)

text \<open>The two phases of \<open>get_crawl_task\<close>, by the position each one finds.\<close>

lemma get_crawl_task_pending:
  assumes "find_one_sorted not_started priority (crawlqueue_col w) = Some i"
  shows "get_crawl_task conf now1 now2 now3 w =
           (Some (crawlqueue_col w ! i),
            w\<lparr>crawlqueue_col := (crawlqueue_col w)[i := (crawlqueue_col w ! i)\<lparr>start_time := Some now1\<rparr>]\<rparr>)"
  using assms by (simp add: get_crawl_task_def find_one_and_update_def)

lemma get_crawl_task_expired:
  assumes "find_one_sorted not_started priority (crawlqueue_col w) = None"
    and "find_one (expired (now2 - real_of_int (max_task_duration_seconds conf))) (crawlqueue_col w) = Some i"
  shows "get_crawl_task conf now1 now2 now3 w =
           (Some (crawlqueue_col w ! i),
            w\<lparr>crawlqueue_col := (crawlqueue_col w)[i := (crawlqueue_col w ! i)\<lparr>start_time := Some now3\<rparr>]\<rparr>)"
  using assms by (simp add: get_crawl_task_def find_one_and_update_def Let_def)

lemma get_crawl_task_none:
  assumes "find_one_sorted not_started priority (crawlqueue_col w) = None"
    and "find_one (expired (now2 - real_of_int (max_task_duration_seconds conf))) (crawlqueue_col w) = None"
  shows "get_crawl_task conf now1 now2 now3 w = (None, w)"
  using assms by (simp add: get_crawl_task_def find_one_and_update_def Let_def)

section \<open>Claiming a task\<close>



lemma get_crawl_task_result:
  fixes conf now1 now2 now3 w
  defines "q \<equiv> crawlqueue_col w"
    and "deadline \<equiv> now2 - real_of_int (max_task_duration_seconds conf)"
  shows "(\<exists>i. find_one_sorted not_started priority q = Some i \<and>
              get_crawl_task conf now1 now2 now3 w =
                (Some (q ! i), w\<lparr>crawlqueue_col := q[i := (q ! i)\<lparr>start_time := Some now1\<rparr>]\<rparr>))
       \<or> (find_one_sorted not_started priority q = None \<and>
            (\<exists>i. find_one (expired deadline) q = Some i \<and>
              get_crawl_task conf now1 now2 now3 w =
                (Some (q ! i), w\<lparr>crawlqueue_col := q[i := (q ! i)\<lparr>start_time := Some now3\<rparr>]\<rparr>)))
       \<or> (find_one_sorted not_started priority q = None \<and> find_one (expired deadline) q = None \<and>
            get_crawl_task conf now1 now2 now3 w = (None, w))"
proof (cases "find_one_sorted not_started priority q")
  case (Some i)
  with get_crawl_task_pending [of w i conf now1 now2 now3] show ?thesis
    by (simp add: q_def)
next
  case None
  show ?thesis
  proof (cases "find_one (expired deadline) q")
    case inner: None
    with None get_crawl_task_none [of w now2 conf now1 now3] show ?thesis
      by (simp add: q_def deadline_def)
  next
    case (Some i)
    with None get_crawl_task_expired [of w now2 conf i now1 now3] show ?thesis
      by (simp add: q_def deadline_def)
  qed
qed

text \<open>A task that \<open>get_crawl_task\<close> returns is in the queue and passed one of its two filters.\<close>

lemma get_crawl_task_returns:
  assumes "fst (get_crawl_task conf now1 now2 now3 w) = Some t"
  shows "t \<in> set (crawlqueue_col w) \<and>
         (start_time t = None \<or>
          (\<exists>s. start_time t = Some s \<and> end_time t = None \<and>
               s < now2 - real_of_int (max_task_duration_seconds conf)))"
proof -
  define q where "q = crawlqueue_col w"
  define deadline where "deadline = now2 - real_of_int (max_task_duration_seconds conf)"
  from get_crawl_task_result [where w = w and conf = conf and ?now1.0 = now1 and ?now2.0 = now2 and ?now3.0 = now3] assms
  consider i where "find_one_sorted not_started priority q = Some i" "t = q ! i"
    | i where "find_one (expired deadline) q = Some i" "t = q ! i"
    unfolding q_def deadline_def by auto
  then show ?thesis
  proof cases
    case 1
    from find_one_sorted_Some [OF 1(1)] 1(2) show ?thesis
      by (auto simp: not_started_def q_def)
  next
    case 2
    from find_one_Some [OF 2(1)] 2(2) show ?thesis
      by (auto simp: expired_iff q_def deadline_def)
  qed
qed

text \<open>
  C2, as the code has it. A task that \<open>get_crawl_task\<close> returns either has no
  \<open>start_time\<close>, or has a \<open>start_time\<close> more than \<open>max_task_duration\<close> before the clock
  reading and no \<open>end_time\<close>. So it never returns a task that is leased and completed, nor
  one that is leased and not expired; the filter of the first phase does not look at
  \<open>end_time\<close>. And where a task leased at \<open>T\<close> and not completed is the only task of the
  queue that is not both leased and completed, the claim returns it exactly when more
  than \<open>max_task_duration\<close> has passed since \<open>T\<close>.
\<close>

theorem get_crawl_task_respects_lease:
  "(fst (get_crawl_task conf now1 now2 now3 w) = Some t \<longrightarrow>
      start_time t = None \<or>
      (\<exists>s. start_time t = Some s \<and> end_time t = None \<and>
           real_of_int (max_task_duration_seconds conf) < now2 - s))
   \<and> (t \<in> set (crawlqueue_col w) \<and> start_time t = Some T \<and> end_time t = None \<and>
       (\<forall>u\<in>set (crawlqueue_col w). u \<noteq> t \<longrightarrow> start_time u \<noteq> None \<and> end_time u \<noteq> None) \<longrightarrow>
       (fst (get_crawl_task conf now1 now2 now3 w) = Some t) =
       (real_of_int (max_task_duration_seconds conf) < now2 - T))"
proof (intro conjI impI)
  assume "fst (get_crawl_task conf now1 now2 now3 w) = Some t"
  from get_crawl_task_returns [OF this]
  show "start_time t = None \<or>
      (\<exists>s. start_time t = Some s \<and> end_time t = None \<and>
           real_of_int (max_task_duration_seconds conf) < now2 - s)"
    by auto
next
  define q where "q = crawlqueue_col w"
  define deadline where "deadline = now2 - real_of_int (max_task_duration_seconds conf)"
  assume a: "t \<in> set (crawlqueue_col w) \<and> start_time t = Some T \<and> end_time t = None \<and>
       (\<forall>u\<in>set (crawlqueue_col w). u \<noteq> t \<longrightarrow> start_time u \<noteq> None \<and> end_time u \<noteq> None)"
  then have nopending: "find_one_sorted not_started priority q = None"
    by (auto simp: find_one_sorted_None not_started_def q_def)
  have only: "u = t" if "u \<in> set q" "expired deadline u" for u
    using that a by (auto simp: expired_iff q_def)
  have exp_t: "expired deadline t \<longleftrightarrow> real_of_int (max_task_duration_seconds conf) < now2 - T"
    using a by (auto simp: expired_iff deadline_def)
  show "(fst (get_crawl_task conf now1 now2 now3 w) = Some t) =
       (real_of_int (max_task_duration_seconds conf) < now2 - T)"
  proof (cases "find_one (expired deadline) q")
    case None
    with a have "\<not> expired deadline t" by (auto simp: find_one_None q_def)
    moreover from None nopending get_crawl_task_none [of w now2 conf now1 now3]
    have "fst (get_crawl_task conf now1 now2 now3 w) = None"
      by (simp add: q_def deadline_def)
    ultimately show ?thesis using exp_t by simp
  next
    case (Some i)
    from find_one_Some [OF Some] have "q ! i \<in> set q" "expired deadline (q ! i)" by auto
    with only have "q ! i = t" "expired deadline t" by auto
    moreover from Some nopending get_crawl_task_expired [of w now2 conf i now1 now3]
    have "fst (get_crawl_task conf now1 now2 now3 w) = Some (q ! i)"
      by (simp add: q_def deadline_def)
    ultimately show ?thesis using exp_t by simp
  qed
qed

text \<open>
  A single task leased at time 0 with a lease of 60 seconds: at time 100 the claim
  returns it, and 60 < 100 - 0.
\<close>

theorem get_crawl_task_respects_lease_witness:
  "fst (get_crawl_task conf0 100 100 100 (world_of [queued 0 DETAILS ''a'' None (Some 0) None] []))
     = Some (queued 0 DETAILS ''a'' None (Some 0) None)
   \<and> (\<exists>s. start_time (queued 0 DETAILS ''a'' None (Some 0) None) = Some s \<and>
           end_time (queued 0 DETAILS ''a'' None (Some 0) None) = None \<and>
           real_of_int (max_task_duration_seconds conf0) < 100 - s)
   \<and> (fst (get_crawl_task conf0 100 100 100 (world_of [queued 0 DETAILS ''a'' None (Some 0) None] []))
        = Some (queued 0 DETAILS ''a'' None (Some 0) None))
     = (real_of_int (max_task_duration_seconds conf0) < 100 - 0)"
proof -
  let ?t = "queued 0 DETAILS ''a'' None (Some 0) None"
  let ?w = "world_of [?t] []"
  have run: "fst (get_crawl_task conf0 100 100 100 ?w) = Some ?t"
    by (simp add: get_crawl_task_def find_one_sorted_def find_one_and_update_def world_of_def
        queued_def not_started_def expired_def conf0_def)
  have leased: "start_time ?t \<noteq> None" by (simp add: queued_def)
  have alone: "?t \<in> set (crawlqueue_col ?w) \<and> start_time ?t = Some 0 \<and> end_time ?t = None \<and>
       (\<forall>u\<in>set (crawlqueue_col ?w). u \<noteq> ?t \<longrightarrow> start_time u \<noteq> None \<and> end_time u \<noteq> None)"
    by (simp add: world_of_def queued_def)
  note inst = get_crawl_task_respects_lease [of conf0 100 100 100 ?w ?t 0]
  from inst run leased
  have 1: "\<exists>s. start_time ?t = Some s \<and> end_time ?t = None \<and>
           real_of_int (max_task_duration_seconds conf0) < 100 - s"
    by blast
  from inst alone
  have 2: "(fst (get_crawl_task conf0 100 100 100 ?w) = Some ?t)
     = (real_of_int (max_task_duration_seconds conf0) < 100 - 0)"
    by blast
  from run 1 2 show ?thesis by blast
qed

text \<open>
  C2 as stated fails: after the run of \<open>stale_completion\<close> the task has an \<open>end_time\<close> but
  no \<open>start_time\<close>, and the next claim returns it, a task that is done.
\<close>

theorem get_crawl_task_returns_done_task:
  "fst (get_crawl_task conf0 130 130 130 stale_completion)
     = Some (queued 0 DETAILS ''a'' None None (Some 120))"
  by (simp add: stale_completion_def get_crawl_task_def find_one_sorted_def find_one_and_update_def
      world_of_def queued_def not_started_def expired_def conf0_def enqueue_crawl_tasks_def
      dump_to_mongodb_def task_key_def new_task_def reset_crawl_task_def set_crawl_task_completed_def)

section \<open>Resetting a task\<close>

lemma reset_crawl_task_at:
  assumes "distinct (map task_id (crawlqueue_col w))" "i < length (crawlqueue_col w)"
  shows "reset_crawl_task (task_id (crawlqueue_col w ! i)) w =
           w\<lparr>crawlqueue_col :=
               (crawlqueue_col w)[i := (crawlqueue_col w ! i)\<lparr>start_time := None, end_time := None\<rparr>]\<rparr>"
  using find_by_id_distinct [OF assms]
  by (simp add: reset_crawl_task_def find_one_and_update_def)

lemma first_pending_after_reset:
  assumes i: "i < length q"
    and others: "\<And>k. k < length q \<Longrightarrow> k \<noteq> i \<Longrightarrow> not_started (q ! k) \<Longrightarrow>
                   priority (q ! k) \<le> priority (q ! i) \<and> (k < i \<longrightarrow> priority (q ! k) < priority (q ! i))"
  shows "find_one_sorted not_started priority (q[i := (q ! i)\<lparr>start_time := None, end_time := None\<rparr>]) = Some i"
proof -
  let ?t = "(q ! i)\<lparr>start_time := None, end_time := None\<rparr>"
  let ?q = "q[i := ?t]"
  have at: "?q ! i = ?t" using i by simp
  have other: "?q ! k = q ! k" if "k \<noteq> i" for k using that by simp
  have le: "priority d \<le> priority ?t" if "d \<in> set ?q" "not_started d" for d
  proof -
    from that(1) obtain k where k: "k < length q" "d = ?q ! k"
      by (auto simp: in_set_conv_nth)
    show ?thesis
    proof (cases "k = i")
      case True
      with k at show ?thesis by simp
    next
      case False
      with k that(2) others [of k] other [of k] show ?thesis by simp
    qed
  qed
  have less: "priority (?q ! k) < priority ?t" if "k < i" "not_started (?q ! k)" for k
    using that i others [of k] other [of k] by simp
  have "not_started ?t" by (simp add: not_started_def)
  with i at le less show ?thesis
    by (simp add: find_one_sorted_eq_Some)
qed

text \<open>
  C7. In a queue whose identifiers are distinct, \<open>reset_crawl_task\<close> changes the task of
  that identifier and nothing else: it removes \<open>start_time\<close> and \<open>end_time\<close>. After a
  claim that returned a task, resetting that task leaves it in the queue as it was
  returned but with neither field, and the next claim, at any clock readings, returns
  exactly this task.
\<close>

theorem reset_crawl_task_restores_pending:
  assumes "distinct (map task_id (crawlqueue_col w))"
  shows "(i < length (crawlqueue_col w) \<longrightarrow>
            reset_crawl_task (task_id (crawlqueue_col w ! i)) w =
              w\<lparr>crawlqueue_col :=
                  (crawlqueue_col w)[i := (crawlqueue_col w ! i)\<lparr>start_time := None, end_time := None\<rparr>]\<rparr>)
       \<and> (get_crawl_task conf now1 now2 now3 w = (Some t, w1) \<longrightarrow>
            (\<exists>j<length (crawlqueue_col w).
                crawlqueue_col w ! j = t \<and>
                reset_crawl_task (task_id t) w1 =
                  w\<lparr>crawlqueue_col := (crawlqueue_col w)[j := t\<lparr>start_time := None, end_time := None\<rparr>]\<rparr>) \<and>
            fst (get_crawl_task conf m1 m2 m3 (reset_crawl_task (task_id t) w1)) =
              Some (t\<lparr>start_time := None, end_time := None\<rparr>))"
proof (rule conjI; rule impI)
  assume "i < length (crawlqueue_col w)"
  with assms show "reset_crawl_task (task_id (crawlqueue_col w ! i)) w =
              w\<lparr>crawlqueue_col :=
                  (crawlqueue_col w)[i := (crawlqueue_col w ! i)\<lparr>start_time := None, end_time := None\<rparr>]\<rparr>"
    by (rule reset_crawl_task_at)
next
  define q where "q = crawlqueue_col w"
  define deadline where "deadline = now2 - real_of_int (max_task_duration_seconds conf)"
  define t' where "t' = t\<lparr>start_time := None, end_time := None\<rparr>"
  assume run: "get_crawl_task conf now1 now2 now3 w = (Some t, w1)"
  have "\<exists>j now. j < length q \<and> q ! j = t \<and> w1 = w\<lparr>crawlqueue_col := q[j := t\<lparr>start_time := Some now\<rparr>]\<rparr> \<and>
          (\<forall>k<length q. k \<noteq> j \<longrightarrow> not_started (q ! k) \<longrightarrow>
             priority (q ! k) \<le> priority (q ! j) \<and> (k < j \<longrightarrow> priority (q ! k) < priority (q ! j)))"
  proof -
    from get_crawl_task_result [where w = w and conf = conf and ?now1.0 = now1 and ?now2.0 = now2 and ?now3.0 = now3] run
    consider j where "find_one_sorted not_started priority q = Some j" "t = q ! j"
        "w1 = w\<lparr>crawlqueue_col := q[j := (q ! j)\<lparr>start_time := Some now1\<rparr>]\<rparr>"
      | j where "find_one_sorted not_started priority q = None" "find_one (expired deadline) q = Some j"
        "t = q ! j" "w1 = w\<lparr>crawlqueue_col := q[j := (q ! j)\<lparr>start_time := Some now3\<rparr>]\<rparr>"
      unfolding q_def deadline_def by auto
    then show ?thesis
    proof cases
      case 1
      from find_one_sorted_Some [OF 1(1)]
      have "j < length q"
        "\<forall>k<length q. k \<noteq> j \<longrightarrow> not_started (q ! k) \<longrightarrow>
             priority (q ! k) \<le> priority (q ! j) \<and> (k < j \<longrightarrow> priority (q ! k) < priority (q ! j))"
        by (auto simp: nth_mem)
      with 1(2,3) show ?thesis by blast
    next
      case 2
      from find_one_Some [OF 2(2)] have "j < length q" by simp
      moreover from 2(1) have "\<forall>k<length q. \<not> not_started (q ! k)"
        by (simp add: find_one_sorted_None)
      ultimately show ?thesis using 2(3,4) by blast
    qed
  qed
  then obtain j now where j: "j < length q" "q ! j = t"
    and w1: "w1 = w\<lparr>crawlqueue_col := q[j := t\<lparr>start_time := Some now\<rparr>]\<rparr>"
    and others: "\<forall>k<length q. k \<noteq> j \<longrightarrow> not_started (q ! k) \<longrightarrow>
             priority (q ! k) \<le> priority (q ! j) \<and> (k < j \<longrightarrow> priority (q ! k) < priority (q ! j))"
    by blast
  have ids: "map task_id (q[j := t\<lparr>start_time := Some now\<rparr>]) = map task_id q"
    using j by (simp add: map_update list_update_same_conv)
  have "reset_crawl_task (task_id (crawlqueue_col w1 ! j)) w1 =
          w1\<lparr>crawlqueue_col := (crawlqueue_col w1)[j := (crawlqueue_col w1 ! j)\<lparr>start_time := None, end_time := None\<rparr>]\<rparr>"
    using assms j ids by (intro reset_crawl_task_at) (simp_all add: w1 q_def)
  with j have reset: "reset_crawl_task (task_id t) w1 = w\<lparr>crawlqueue_col := q[j := t']\<rparr>"
    by (simp add: w1 t'_def)
  from first_pending_after_reset [of j q] j others
  have "find_one_sorted not_started priority (q[j := t']) = Some j"
    by (simp add: t'_def)
  with get_crawl_task_pending [of "w\<lparr>crawlqueue_col := q[j := t']\<rparr>" j conf m1 m2 m3] j
  have "fst (get_crawl_task conf m1 m2 m3 (w\<lparr>crawlqueue_col := q[j := t']\<rparr>)) = Some t'"
    by simp
  with reset j
  show "(\<exists>j<length (crawlqueue_col w).
                crawlqueue_col w ! j = t \<and>
                reset_crawl_task (task_id t) w1 =
                  w\<lparr>crawlqueue_col := (crawlqueue_col w)[j := t\<lparr>start_time := None, end_time := None\<rparr>]\<rparr>) \<and>
            fst (get_crawl_task conf m1 m2 m3 (reset_crawl_task (task_id t) w1)) =
              Some (t\<lparr>start_time := None, end_time := None\<rparr>)"
    unfolding q_def [symmetric] t'_def [symmetric] by auto
qed
text \<open>
  Two pending tasks: the claim returns the one of priority 5, the reset gives the queue
  back as it was, and the next claim returns the same task.
\<close>

theorem reset_crawl_task_restores_pending_witness:
  "distinct (map task_id (crawlqueue_col
      (world_of [queued 0 DETAILS ''a'' (Some 1) None None, queued 1 DETAILS ''b'' (Some 5) None None] [])))
   \<and> get_crawl_task conf0 100 101 102
        (world_of [queued 0 DETAILS ''a'' (Some 1) None None, queued 1 DETAILS ''b'' (Some 5) None None] [])
      = (Some (queued 1 DETAILS ''b'' (Some 5) None None),
         world_of [queued 0 DETAILS ''a'' (Some 1) None None, queued 1 DETAILS ''b'' (Some 5) (Some 100) None] [])
   \<and> fst (get_crawl_task conf0 200 201 202
        (reset_crawl_task (task_id (queued 1 DETAILS ''b'' (Some 5) None None))
           (world_of [queued 0 DETAILS ''a'' (Some 1) None None, queued 1 DETAILS ''b'' (Some 5) (Some 100) None] [])))
      = Some ((queued 1 DETAILS ''b'' (Some 5) None None)\<lparr>start_time := None, end_time := None\<rparr>)"
proof -
  let ?w = "world_of [queued 0 DETAILS ''a'' (Some 1) None None, queued 1 DETAILS ''b'' (Some 5) None None] []"
  let ?t = "queued 1 DETAILS ''b'' (Some 5) None None"
  let ?w1 = "world_of [queued 0 DETAILS ''a'' (Some 1) None None, queued 1 DETAILS ''b'' (Some 5) (Some 100) None] []"
  have ids: "distinct (map task_id (crawlqueue_col ?w))"
    by (simp add: world_of_def queued_def)
  have run: "get_crawl_task conf0 100 101 102 ?w = (Some ?t, ?w1)"
    by (simp add: get_crawl_task_def find_one_sorted_def find_one_and_update_def world_of_def
        queued_def not_started_def)
  from reset_crawl_task_restores_pending [OF ids, of 0 conf0 100 101 102 ?t ?w1 200 201 202] run
  have "fst (get_crawl_task conf0 200 201 202 (reset_crawl_task (task_id ?t) ?w1)) =
          Some (?t\<lparr>start_time := None, end_time := None\<rparr>)"
    by blast
  with ids run show ?thesis by blast
qed

section \<open>Enqueueing drafts\<close>

lemma insert_many_appends:
  "insert_many key fault mk js col n = (col', n', errs) \<Longrightarrow>
     \<exists>new. col' = col @ new \<and> (\<forall>d\<in>set new. \<exists>j\<in>set js. \<exists>m. fault j = None \<and> d = mk m j)"
proof (induction js arbitrary: col n col' n' errs)
  case Nil
  then show ?case by simp
next
  case (Cons j js)
  show ?case
  proof (cases "fault j = None \<and> key (mk n j) \<notin> set (map key col)")
    case True
    with Cons.prems have "insert_many key fault mk js (col @ [mk n j]) (Suc n) = (col', n', errs)"
      by simp
    from Cons.IH [OF this] obtain new where
      "col' = (col @ [mk n j]) @ new" "\<forall>d\<in>set new. \<exists>j\<in>set js. \<exists>m. fault j = None \<and> d = mk m j"
      by blast
    with True have "col' = col @ (mk n j # new) \<and>
        (\<forall>d\<in>set (mk n j # new). \<exists>j'\<in>set (j # js). \<exists>m. fault j' = None \<and> d = mk m j')"
      by auto
    then show ?thesis by blast
  next
    case False
    with Cons.prems obtain errs' where "insert_many key fault mk js col (Suc n) = (col', n', errs')"
      by (auto split: option.splits prod.splits if_splits)
    from Cons.IH [OF this] show ?thesis by auto
  qed
qed

lemma insert_many_distinct:
  "insert_many key fault mk js col n = (col', n', errs) \<Longrightarrow>
     distinct (map key col) \<Longrightarrow> distinct (map key col')"
proof (induction js arbitrary: col n col' n' errs)
  case Nil
  then show ?case by simp
next
  case (Cons j js)
  show ?case
  proof (cases "fault j = None \<and> key (mk n j) \<notin> set (map key col)")
    case True
    with Cons.prems(1) have run: "insert_many key fault mk js (col @ [mk n j]) (Suc n) = (col', n', errs)"
      by simp
    from True Cons.prems(2) have "distinct (map key (col @ [mk n j]))" by simp
    from Cons.IH [OF run this] show ?thesis .
  next
    case False
    with Cons.prems(1) obtain errs' where "insert_many key fault mk js col (Suc n) = (col', n', errs')"
      by (auto split: option.splits prod.splits if_splits)
    from Cons.IH [OF this Cons.prems(2)] show ?thesis .
  qed
qed

lemma insert_many_stores:
  assumes key: "\<And>m j. key (mk m j) = kd j"
  shows "insert_many key fault mk js col n = (col', n', errs) \<Longrightarrow>
     j \<in> set js \<Longrightarrow> fault j = None \<Longrightarrow> kd j \<in> set (map key col')"
proof (induction js arbitrary: col n col' n' errs)
  case Nil
  then show ?case by simp
next
  case (Cons a js)
  show ?case
  proof (cases "fault a = None \<and> key (mk n a) \<notin> set (map key col)")
    case True
    with Cons.prems(1) have run: "insert_many key fault mk js (col @ [mk n a]) (Suc n) = (col', n', errs)"
      by simp
    show ?thesis
    proof (cases "j = a")
      case True
      from insert_many_appends [OF run] obtain new where "col' = (col @ [mk n a]) @ new" by blast
      with True key show ?thesis by simp
    next
      case False
      with Cons.prems(2) have "j \<in> set js" by simp
      from Cons.IH [OF run this Cons.prems(3)] show ?thesis .
    qed
  next
    case False
    with Cons.prems(1) obtain errs' where run: "insert_many key fault mk js col (Suc n) = (col', n', errs')"
      by (auto split: option.splits prod.splits if_splits)
    show ?thesis
    proof (cases "j = a")
      case True
      with False Cons.prems(3) key have "kd j \<in> set (map key col)" by simp
      moreover from insert_many_appends [OF run] obtain new where "col' = col @ new" by blast
      ultimately show ?thesis by auto
    next
      case neq: False
      with Cons.prems(2) have "j \<in> set js" by simp
      from Cons.IH [OF run this Cons.prems(3)] show ?thesis .
    qed
  qed
qed

lemma insert_many_errors:
  "insert_many key fault mk js col n = (col', n', errs) \<Longrightarrow>
     filter (\<lambda>err. code err \<noteq> 11000) errs =
     filter (\<lambda>err. code err \<noteq> 11000) (List.map_filter fault js)"
proof (induction js arbitrary: col n col' n' errs)
  case Nil
  then show ?case by simp
next
  case (Cons j js)
  show ?case
  proof (cases "fault j")
    case None
    show ?thesis
    proof (cases "key (mk n j) \<in> set (map key col)")
      case True
      with None Cons.prems obtain errs' where
        run: "insert_many key fault mk js col (Suc n) = (col', n', errs')" and "errs = duplicate_key # errs'"
        by (auto split: prod.splits)
      with Cons.IH [OF run] None show ?thesis
        by (simp add: duplicate_key_def)
    next
      case False
      with None Cons.prems have "insert_many key fault mk js (col @ [mk n j]) (Suc n) = (col', n', errs)"
        by simp
      from Cons.IH [OF this] None show ?thesis
        by simp
    qed
  next
    case (Some e)
    with Cons.prems obtain errs' where
      run: "insert_many key fault mk js col (Suc n) = (col', n', errs')" and "errs = e # errs'"
      by (auto split: prod.splits)
    with Cons.IH [OF run] Some show ?thesis
      by simp
  qed
qed

lemma insert_many_counter:
  "insert_many key fault mk js col n = (col', n', errs) \<Longrightarrow> n' = n + length js"
proof (induction js arbitrary: col n col' n' errs)
  case Nil
  then show ?case by simp
next
  case (Cons j js)
  show ?case
  proof (cases "fault j = None \<and> key (mk n j) \<notin> set (map key col)")
    case True
    with Cons.prems have "insert_many key fault mk js (col @ [mk n j]) (Suc n) = (col', n', errs)"
      by simp
    from Cons.IH [OF this] show ?thesis by simp
  next
    case False
    with Cons.prems obtain errs' where "insert_many key fault mk js col (Suc n) = (col', n', errs')"
      by (auto split: option.splits prod.splits if_splits)
    from Cons.IH [OF this] show ?thesis by simp
  qed
qed

text \<open>What \<open>enqueue_crawl_tasks\<close> does to the state, in terms of the bulk insert.\<close>

lemma enqueue_crawl_tasks_eq:
  assumes "insert_many task_key (task_fault conf) new_task crawl_tasks (crawlqueue_col w) (next_oid w)
             = (col', n', errs)"
  shows "enqueue_crawl_tasks conf crawl_tasks w =
           w\<lparr>crawlqueue_col := col', next_oid := n',
              logged := logged w @ map (\<lambda>err. InsertError (errmsg err))
                 (filter (\<lambda>err. code err \<noteq> 11000) (List.map_filter (task_fault conf) crawl_tasks))\<rparr>"
proof (cases "crawl_tasks = []")
  case True
  with assms show ?thesis
    by (simp add: enqueue_crawl_tasks_def dump_to_mongodb_def)
next
  case False
  with assms insert_many_errors [OF assms] show ?thesis
    by (simp add: enqueue_crawl_tasks_def dump_to_mongodb_def)
qed
lemma distinct_key_once:
  "distinct (map f xs) \<Longrightarrow> k \<in> set (map f xs) \<Longrightarrow> length (filter (\<lambda>d. f d = k) xs) = 1"
proof (induction xs)
  case Nil
  then show ?case by simp
next
  case (Cons x xs)
  show ?case
  proof (cases "f x = k")
    case True
    with Cons.prems(1) have "\<forall>d\<in>set xs. f d \<noteq> k" by (auto simp: image_iff)
    then have "filter (\<lambda>d. f d = k) xs = []" by (simp add: filter_empty_conv)
    with True show ?thesis by simp
  next
    case False
    with Cons show ?thesis by auto
  qed
qed

text \<open>
  C3. \<open>enqueue_crawl_tasks\<close> keeps every task of the queue as it is and appends new ones.
  Each new task comes from a draft that the store did not reject, and has no priority,
  lease, completion or error. Every draft that the store did not reject is in the queue
  afterwards, inserted now or present before. If no two tasks of the queue shared
  \<open>(data, task)\<close> before, none do afterwards, so each such draft is stored exactly once,
  however often the batch or the queue holds it. The log grows by the messages of the
  store's rejections whose code is not 11000, in the order of the drafts, and by nothing
  for a duplicate. The catalog and the files are untouched.
\<close>

theorem enqueue_crawl_tasks_dedup:
  "\<exists>new.
     crawlqueue_col (enqueue_crawl_tasks conf drafts w) = crawlqueue_col w @ new
     \<and> (\<forall>d\<in>set new. \<exists>j\<in>set drafts.
           task_fault conf j = None \<and> data d = data j \<and> task d = task j \<and>
           priority d = None \<and> start_time d = None \<and> end_time d = None \<and> error d = None)
     \<and> (\<forall>j\<in>set drafts. task_fault conf j = None \<longrightarrow>
           (\<exists>d\<in>set (crawlqueue_col w @ new). data d = data j \<and> task d = task j))
     \<and> (distinct (map task_key (crawlqueue_col w)) \<longrightarrow>
           distinct (map task_key (crawlqueue_col w @ new)) \<and>
           (\<forall>j\<in>set drafts. task_fault conf j = None \<longrightarrow>
              length (filter (\<lambda>d. data d = data j \<and> task d = task j) (crawlqueue_col w @ new)) = 1))
     \<and> logged (enqueue_crawl_tasks conf drafts w) =
         logged w @ map (\<lambda>err. InsertError (errmsg err))
           (filter (\<lambda>err. code err \<noteq> 11000) (List.map_filter (task_fault conf) drafts))
     \<and> playstore_col (enqueue_crawl_tasks conf drafts w) = playstore_col w
     \<and> files (enqueue_crawl_tasks conf drafts w) = files w"
proof -
  obtain col' n' errs where
    run: "insert_many task_key (task_fault conf) new_task drafts (crawlqueue_col w) (next_oid w) = (col', n', errs)"
    by (metis prod_cases3)
  note eq = enqueue_crawl_tasks_eq [OF run]
  from insert_many_appends [OF run] obtain new where
    new: "col' = crawlqueue_col w @ new"
    and from_draft: "\<forall>d\<in>set new. \<exists>j\<in>set drafts. \<exists>m. task_fault conf j = None \<and> d = new_task m j"
    by blast
  have fresh: "\<forall>d\<in>set new. \<exists>j\<in>set drafts.
           task_fault conf j = None \<and> data d = data j \<and> task d = task j \<and>
           priority d = None \<and> start_time d = None \<and> end_time d = None \<and> error d = None"
  proof
    fix d assume "d \<in> set new"
    with from_draft obtain j m where "j \<in> set drafts" "task_fault conf j = None" "d = new_task m j"
      by blast
    then show "\<exists>j\<in>set drafts.
           task_fault conf j = None \<and> data d = data j \<and> task d = task j \<and>
           priority d = None \<and> start_time d = None \<and> end_time d = None \<and> error d = None"
      by (auto simp: new_task_def)
  qed
  have key: "task_key (new_task m j) = (data j, task j)" for m j
    by (simp add: task_key_def new_task_def)
  have stored: "(data j, task j) \<in> set (map task_key col')"
    if "j \<in> set drafts" "task_fault conf j = None" for j
    using insert_many_stores [of task_key new_task "\<lambda>j. (data j, task j)", OF key run that] .
  have present: "\<forall>j\<in>set drafts. task_fault conf j = None \<longrightarrow>
           (\<exists>d\<in>set (crawlqueue_col w @ new). data d = data j \<and> task d = task j)"
  proof (intro ballI impI)
    fix j assume "j \<in> set drafts" "task_fault conf j = None"
    from stored [OF this] new
    show "\<exists>d\<in>set (crawlqueue_col w @ new). data d = data j \<and> task d = task j"
      by (auto simp: task_key_def)
  qed
  have once: "distinct (map task_key (crawlqueue_col w)) \<longrightarrow>
           distinct (map task_key (crawlqueue_col w @ new)) \<and>
           (\<forall>j\<in>set drafts. task_fault conf j = None \<longrightarrow>
              length (filter (\<lambda>d. data d = data j \<and> task d = task j) (crawlqueue_col w @ new)) = 1)"
  proof
    assume "distinct (map task_key (crawlqueue_col w))"
    from insert_many_distinct [OF run this] new
    have d: "distinct (map task_key (crawlqueue_col w @ new))" by simp
    have "length (filter (\<lambda>d. data d = data j \<and> task d = task j) (crawlqueue_col w @ new)) = 1"
      if "j \<in> set drafts" "task_fault conf j = None" for j
    proof -
      from stored [OF that] new have "(data j, task j) \<in> set (map task_key (crawlqueue_col w @ new))"
        by simp
      from distinct_key_once [OF d this] show ?thesis
        by (simp add: task_key_def)
    qed
    with d show "distinct (map task_key (crawlqueue_col w @ new)) \<and>
           (\<forall>j\<in>set drafts. task_fault conf j = None \<longrightarrow>
              length (filter (\<lambda>d. data d = data j \<and> task d = task j) (crawlqueue_col w @ new)) = 1)"
      by blast
  qed
  from eq new have "crawlqueue_col (enqueue_crawl_tasks conf drafts w) = crawlqueue_col w @ new"
    "logged (enqueue_crawl_tasks conf drafts w) =
         logged w @ map (\<lambda>err. InsertError (errmsg err))
           (filter (\<lambda>err. code err \<noteq> 11000) (List.map_filter (task_fault conf) drafts))"
    "playstore_col (enqueue_crawl_tasks conf drafts w) = playstore_col w"
    "files (enqueue_crawl_tasks conf drafts w) = files w"
    by simp_all
  with fresh present once show ?thesis by blast
qed

text \<open>
  A batch with the same draft twice, a draft the store rejects and a fourth draft, on an
  empty queue: one task for the repeated draft, none for the rejected one, whose message
  is logged, and the fourth is stored.
\<close>

theorem enqueue_crawl_tasks_dedup_witness:
  "enqueue_crawl_tasks conf_strict
      [\<lparr>data = ''a'', task = DETAILS\<rparr>, \<lparr>data = ''a'', task = DETAILS\<rparr>,
       \<lparr>data = ''bad'', task = DETAILS\<rparr>, \<lparr>data = ''b'', task = CREATOR\<rparr>] (world_of [] [])
     = \<lparr>crawlqueue_col = [queued 0 DETAILS ''a'' None None None, queued 3 CREATOR ''b'' None None None],
        playstore_col = [], next_oid = 4, logged = [InsertError ''Document failed validation''], files = []\<rparr>
   \<and> distinct (map task_key (crawlqueue_col (world_of [] [])))
   \<and> task_fault conf_strict \<lparr>data = ''a'', task = DETAILS\<rparr> = None
   \<and> length (filter (\<lambda>d. data d = ''a'' \<and> task d = DETAILS)
        (crawlqueue_col (enqueue_crawl_tasks conf_strict
          [\<lparr>data = ''a'', task = DETAILS\<rparr>, \<lparr>data = ''a'', task = DETAILS\<rparr>,
           \<lparr>data = ''bad'', task = DETAILS\<rparr>, \<lparr>data = ''b'', task = CREATOR\<rparr>] (world_of [] [])))) = 1"
proof -
  let ?a = "\<lparr>data = ''a'', task = DETAILS\<rparr>"
  let ?drafts = "[?a, ?a, \<lparr>data = ''bad'', task = DETAILS\<rparr>, \<lparr>data = ''b'', task = CREATOR\<rparr>]"
  let ?w = "world_of [] []"
  have run: "enqueue_crawl_tasks conf_strict ?drafts ?w
     = \<lparr>crawlqueue_col = [queued 0 DETAILS ''a'' None None None, queued 3 CREATOR ''b'' None None None],
        playstore_col = [], next_oid = 4, logged = [InsertError ''Document failed validation''], files = []\<rparr>"
    by (simp add: enqueue_crawl_tasks_def dump_to_mongodb_def conf_strict_def conf0_def world_of_def
        queued_def new_task_def task_key_def duplicate_key_def DETAILS_def CREATOR_def)
  have d: "distinct (map task_key (crawlqueue_col ?w))" by (simp add: world_of_def)
  have ok: "task_fault conf_strict ?a = None" by (simp add: conf_strict_def conf0_def)
  have mem: "?a \<in> set ?drafts" by simp
  from enqueue_crawl_tasks_dedup [of conf_strict ?drafts ?w] obtain new where
    q: "crawlqueue_col (enqueue_crawl_tasks conf_strict ?drafts ?w) = crawlqueue_col ?w @ new"
    and once: "distinct (map task_key (crawlqueue_col ?w)) \<longrightarrow>
           distinct (map task_key (crawlqueue_col ?w @ new)) \<and>
           (\<forall>j\<in>set ?drafts. task_fault conf_strict j = None \<longrightarrow>
              length (filter (\<lambda>d. data d = data j \<and> task d = task j) (crawlqueue_col ?w @ new)) = 1)"
    by blast
  from once d have "\<forall>j\<in>set ?drafts. task_fault conf_strict j = None \<longrightarrow>
              length (filter (\<lambda>d. data d = data j \<and> task d = task j) (crawlqueue_col ?w @ new)) = 1"
    by blast
  from bspec [OF this mem] ok
  have "length (filter (\<lambda>d. data d = data ?a \<and> task d = task ?a) (crawlqueue_col ?w @ new)) = 1"
    by blast
  then have "length (filter (\<lambda>d. data d = ''a'' \<and> task d = DETAILS)
        (crawlqueue_col (enqueue_crawl_tasks conf_strict ?drafts ?w))) = 1"
    by (simp only: q task_draft.simps)
  with run d ok show ?thesis by blast
qed

section \<open>Graph expansion from a detail result\<close>

lemma kinds_differ: "CREATOR \<noteq> DETAILS" "SIMILAR \<noteq> DETAILS" "CREATOR \<noteq> SIMILAR"
  by (simp_all add: CREATOR_def DETAILS_def SIMILAR_def)

text \<open>
  C5, as the code has it. For a detail result with a publisher, \<open>dump_data_details\<close>
  builds one catalog draft, the result itself with the device added and its three
  cross-reference lists; one \<open>CREATOR\<close> draft for the publisher; one \<open>DETAILS\<close> draft for
  every entry of the similar, pre-install and post-install lists, in this order, so as
  many as the three lists are long together; and no \<open>SIMILAR\<close> draft. It then dumps the
  first and enqueues the others. Two similar packages and one pre-install package give
  three \<open>DETAILS\<close> drafts.
\<close>

theorem details_drafts_counts:
  assumes "creator details = Some c"
  shows "\<exists>entries crawl_tasks.
           details_drafts conf details = Inr (entries, crawl_tasks)
         \<and> entries = [details\<lparr>device := Some (emulated_device conf)\<rparr>]
         \<and> filter (\<lambda>j. task j = CREATOR) crawl_tasks = [\<lparr>data = c, task = CREATOR\<rparr>]
         \<and> filter (\<lambda>j. task j = DETAILS) crawl_tasks =
             map (\<lambda>package. \<lparr>data = package, task = DETAILS\<rparr>) (packages_found details)
         \<and> length (filter (\<lambda>j. task j = DETAILS) crawl_tasks) =
             (case similar details of None \<Rightarrow> 0 | Some ps \<Rightarrow> length ps) +
             (case preInstall details of None \<Rightarrow> 0 | Some ps \<Rightarrow> length ps) +
             (case postInstall details of None \<Rightarrow> 0 | Some ps \<Rightarrow> length ps)
         \<and> filter (\<lambda>j. task j = SIMILAR) crawl_tasks = []
         \<and> length crawl_tasks = 1 + length (packages_found details)
         \<and> dump_data_details conf details w =
             Inr (enqueue_crawl_tasks conf crawl_tasks (dump conf entries w))"
proof -
  define ds where "ds = map (\<lambda>package. \<lparr>data = package, task = DETAILS\<rparr>) (packages_found details)"
  have all: "\<forall>j\<in>set ds. task j = DETAILS" by (auto simp: ds_def)
  then have f1: "filter (\<lambda>j. task j = DETAILS) ds = ds" by simp
  from all kinds_differ have f2: "filter (\<lambda>j. task j = CREATOR) ds = []"
    "filter (\<lambda>j. task j = SIMILAR) ds = []"
    by (auto simp: filter_empty_conv)
  have len: "length (packages_found details) =
             (case similar details of None \<Rightarrow> 0 | Some ps \<Rightarrow> length ps) +
             (case preInstall details of None \<Rightarrow> 0 | Some ps \<Rightarrow> length ps) +
             (case postInstall details of None \<Rightarrow> 0 | Some ps \<Rightarrow> length ps)"
    by (simp add: packages_found_def split: option.splits)
  have drafts: "details_drafts conf details =
      Inr ([details\<lparr>device := Some (emulated_device conf)\<rparr>], \<lparr>data = c, task = CREATOR\<rparr> # ds)"
    using assms by (simp add: details_drafts_def ds_def)
  then have "dump_data_details conf details w =
      Inr (enqueue_crawl_tasks conf (\<lparr>data = c, task = CREATOR\<rparr> # ds)
            (dump conf [details\<lparr>device := Some (emulated_device conf)\<rparr>] w))"
    by (simp add: dump_data_details_def)
  moreover have "filter (\<lambda>j. task j = CREATOR) (\<lparr>data = c, task = CREATOR\<rparr> # ds) = [\<lparr>data = c, task = CREATOR\<rparr>]"
    using f2 by simp
  moreover have "filter (\<lambda>j. task j = DETAILS) (\<lparr>data = c, task = CREATOR\<rparr> # ds) = ds"
    using f1 kinds_differ by simp
  moreover have "filter (\<lambda>j. task j = SIMILAR) (\<lparr>data = c, task = CREATOR\<rparr> # ds) = []"
    using f2 kinds_differ by simp
  moreover have "length ds = length (packages_found details)" by (simp add: ds_def)
  ultimately show ?thesis using drafts len
    by (simp add: ds_def)
qed

theorem details_drafts_counts_witness:
  "creator detail0 = Some ''Acme''
   \<and> details_drafts conf0 detail0 =
       Inr ([detail0\<lparr>device := Some ''bacon''\<rparr>],
            [\<lparr>data = ''Acme'', task = CREATOR\<rparr>, \<lparr>data = ''p1'', task = DETAILS\<rparr>,
             \<lparr>data = ''p2'', task = DETAILS\<rparr>, \<lparr>data = ''p3'', task = DETAILS\<rparr>])
   \<and> length (filter (\<lambda>j. task j = DETAILS)
        [\<lparr>data = ''Acme'', task = CREATOR\<rparr>, \<lparr>data = ''p1'', task = DETAILS\<rparr>,
         \<lparr>data = ''p2'', task = DETAILS\<rparr>, \<lparr>data = ''p3'', task = DETAILS\<rparr>]) = 2 + 1 + 0"
proof -
  let ?ts = "[\<lparr>data = ''Acme'', task = CREATOR\<rparr>, \<lparr>data = ''p1'', task = DETAILS\<rparr>,
             \<lparr>data = ''p2'', task = DETAILS\<rparr>, \<lparr>data = ''p3'', task = DETAILS\<rparr>]"
  have c: "creator detail0 = Some ''Acme''" by (simp add: detail0_def)
  have run: "details_drafts conf0 detail0 = Inr ([detail0\<lparr>device := Some ''bacon''\<rparr>], ?ts)"
    by (simp add: details_drafts_def packages_found_def detail0_def conf0_def)
  from details_drafts_counts [OF c, of conf0] run
  have "length (filter (\<lambda>j. task j = DETAILS) ?ts) =
             (case similar detail0 of None \<Rightarrow> 0 | Some ps \<Rightarrow> length ps) +
             (case preInstall detail0 of None \<Rightarrow> 0 | Some ps \<Rightarrow> length ps) +
             (case postInstall detail0 of None \<Rightarrow> 0 | Some ps \<Rightarrow> length ps)"
    by force
  then have "length (filter (\<lambda>j. task j = DETAILS) ?ts) = 2 + 1 + 0"
    by (simp add: detail0_def)
  with c run show ?thesis by blast
qed

text \<open>
  C5 as stated fails in its example: for two similar packages, one pre-install package
  and a publisher, the drafts of kind \<open>DETAILS\<close> or \<open>SIMILAR\<close> are three, not four.
\<close>

theorem details_drafts_three_not_four:
  "(case details_drafts conf0 detail0 of
      Inl e \<Rightarrow> 0
    | Inr (entries, crawl_tasks) \<Rightarrow>
        length (filter (\<lambda>j. task j = DETAILS \<or> task j = SIMILAR) crawl_tasks)) = (3::nat)"
  by (simp add: details_drafts_def packages_found_def detail0_def conf0_def kinds_differ
      CREATOR_def DETAILS_def SIMILAR_def)

section \<open>Raising priorities\<close>

text \<open>
  C9. Called without a priority, as \<open>main\<close> calls it, \<open>increase_priority\<close> keeps the
  queue's length and order, gives the priority 10 to every task of kind \<open>DETAILS\<close> whose
  \<open>data\<close> is among the packages, and leaves every other task as it is; \<open>SIMILAR\<close> and
  \<open>CREATOR\<close> are not \<open>DETAILS\<close>. The catalog, the files and the identifier counter are as
  before.
\<close>

theorem increase_priority_frame:
  "length (crawlqueue_col (increase_priority packages None w)) = length (crawlqueue_col w)
   \<and> (\<forall>i<length (crawlqueue_col w).
        (task (crawlqueue_col w ! i) = DETAILS \<and> data (crawlqueue_col w ! i) \<in> set packages \<longrightarrow>
           crawlqueue_col (increase_priority packages None w) ! i = (crawlqueue_col w ! i)\<lparr>priority := Some 10\<rparr>)
        \<and> (task (crawlqueue_col w ! i) \<noteq> DETAILS \<or> data (crawlqueue_col w ! i) \<notin> set packages \<longrightarrow>
           crawlqueue_col (increase_priority packages None w) ! i = crawlqueue_col w ! i))
   \<and> SIMILAR \<noteq> DETAILS \<and> CREATOR \<noteq> DETAILS
   \<and> playstore_col (increase_priority packages None w) = playstore_col w
   \<and> files (increase_priority packages None w) = files w
   \<and> next_oid (increase_priority packages None w) = next_oid w"
  by (auto simp: increase_priority_def set_crawl_task_priority_def update_many_def kinds_differ)

text \<open>
  A \<open>DETAILS\<close> and a \<open>SIMILAR\<close> task for the package \<open>a\<close> and a \<open>DETAILS\<close> task for \<open>b\<close>:
  raising \<open>a\<close> changes the first task only.
\<close>

theorem increase_priority_frame_witness:
  "crawlqueue_col (increase_priority [''a''] None
      (world_of [queued 0 DETAILS ''a'' None None None, queued 1 SIMILAR ''a'' (Some 3) None None,
                 queued 2 DETAILS ''b'' None None None] []))
     = [queued 0 DETAILS ''a'' (Some 10) None None, queued 1 SIMILAR ''a'' (Some 3) None None,
        queued 2 DETAILS ''b'' None None None]
   \<and> crawlqueue_col (increase_priority [''a''] None
      (world_of [queued 0 DETAILS ''a'' None None None, queued 1 SIMILAR ''a'' (Some 3) None None,
                 queued 2 DETAILS ''b'' None None None] [])) ! 1
     = queued 1 SIMILAR ''a'' (Some 3) None None"
proof -
  let ?w = "world_of [queued 0 DETAILS ''a'' None None None, queued 1 SIMILAR ''a'' (Some 3) None None,
                 queued 2 DETAILS ''b'' None None None] []"
  have run: "crawlqueue_col (increase_priority [''a''] None ?w)
     = [queued 0 DETAILS ''a'' (Some 10) None None, queued 1 SIMILAR ''a'' (Some 3) None None,
        queued 2 DETAILS ''b'' None None None]"
    by (simp add: increase_priority_def set_crawl_task_priority_def update_many_def world_of_def
        queued_def kinds_differ)
  have other: "task (crawlqueue_col ?w ! 1) \<noteq> DETAILS" "1 < length (crawlqueue_col ?w)"
    "crawlqueue_col ?w ! 1 = queued 1 SIMILAR ''a'' (Some 3) None None"
    by (simp_all add: world_of_def queued_def kinds_differ)
  from increase_priority_frame [of "[''a'']" ?w] other(1,2)
  have "crawlqueue_col (increase_priority [''a''] None ?w) ! 1 = crawlqueue_col ?w ! 1"
    by blast
  with other(3) run show ?thesis by simp
qed

section \<open>Sanitizing a file name\<close>

lemma rstrip_subset: "set (rstrip P s) \<subseteq> set s"
  using set_dropWhileD [of _ P "rev s"] by (auto simp: rstrip_def)

lemma rstrip_last: "rstrip P s = [] \<or> \<not> P (last (rstrip P s))"
proof (cases "dropWhile P (rev s) = []")
  case True
  then show ?thesis by (simp add: rstrip_def)
next
  case False
  then have "\<not> P (hd (dropWhile P (rev s)))" by (rule hd_dropWhile)
  with False show ?thesis by (simp add: rstrip_def last_rev)
qed

lemma rstrip_idem: "rstrip P (rstrip P s) = rstrip P s"
  by (simp add: rstrip_def)

text \<open>
  C10. Every character of the result of \<open>sanitize_filename\<close> is alphanumeric or one of the
  space, the dot and the underscore; the result is empty or ends with a character that
  is not whitespace; and sanitizing the result gives the result again. This holds
  whatever the two Unicode tables are.
\<close>

theorem sanitize_filename_idempotent:
  "(\<forall>c\<in>set (sanitize_filename isalnum isspace filename). isalnum c \<or> c = 32 \<or> c = 46 \<or> c = 95)
   \<and> (sanitize_filename isalnum isspace filename = [] \<or>
       \<not> isspace (last (sanitize_filename isalnum isspace filename)))
   \<and> sanitize_filename isalnum isspace (sanitize_filename isalnum isspace filename) =
       sanitize_filename isalnum isspace filename"
proof -
  let ?keep = "\<lambda>c. isalnum c \<or> c \<in> set keep_characters"
  let ?out = "sanitize_filename isalnum isspace filename"
  have kept: "\<forall>c\<in>set ?out. ?keep c"
    using rstrip_subset [of isspace "filter ?keep filename"]
    by (auto simp: sanitize_filename_def)
  then have chars: "\<forall>c\<in>set ?out. isalnum c \<or> c = 32 \<or> c = 46 \<or> c = 95"
    by (auto simp: keep_characters_def)
  have trailing: "?out = [] \<or> \<not> isspace (last ?out)"
    unfolding sanitize_filename_def by (rule rstrip_last)
  from kept have "filter ?keep ?out = ?out" by simp
  then have "sanitize_filename isalnum isspace ?out = rstrip isspace ?out"
    by (simp add: sanitize_filename_def [of isalnum isspace ?out])
  also have "\<dots> = ?out"
    by (simp add: sanitize_filename_def rstrip_idem)
  finally have "sanitize_filename isalnum isspace ?out = ?out" .
  with chars trailing show ?thesis by blast
qed

text \<open>
  The name \<open>a/b.\<close> followed by two spaces, in code points: the slash and the trailing
  spaces go, and the result, which ends with the dot, is a fixed point.
\<close>

theorem sanitize_filename_idempotent_witness:
  "sanitize_filename ascii_isalnum ascii_isspace [97, 47, 98, 46, 32, 32] = [97, 98, 46]
   \<and> \<not> ascii_isspace (last [97, 98, 46])
   \<and> sanitize_filename ascii_isalnum ascii_isspace [97, 98, 46] = [97, 98, 46]"
proof -
  have run: "sanitize_filename ascii_isalnum ascii_isspace [97, 47, 98, 46, 32, 32] = [97, 98, 46]"
    by (simp add: sanitize_filename_def rstrip_def keep_characters_def ascii_isalnum_def ascii_isspace_def)
  from sanitize_filename_idempotent [of ascii_isalnum ascii_isspace "[97, 47, 98, 46, 32, 32]"]
  have "\<not> ascii_isspace (last [97, 98, 46])"
    "sanitize_filename ascii_isalnum ascii_isspace [97, 98, 46] = [97, 98, 46]"
    unfolding run by simp_all
  with run show ?thesis by blast
qed
section \<open>Facts about the drivers\<close>

lemma get_crawl_task_leases:
  assumes "get_crawl_task conf now1 now2 now3 w = (Some t, w1)"
  shows "\<exists>i now. i < length (crawlqueue_col w) \<and> crawlqueue_col w ! i = t \<and>
           w1 = w\<lparr>crawlqueue_col := (crawlqueue_col w)[i := t\<lparr>start_time := Some now\<rparr>]\<rparr>"
proof -
  define q where "q = crawlqueue_col w"
  define deadline where "deadline = now2 - real_of_int (max_task_duration_seconds conf)"
  from get_crawl_task_result [where w = w and conf = conf and ?now1.0 = now1 and ?now2.0 = now2 and ?now3.0 = now3] assms
  consider i where "find_one_sorted not_started priority q = Some i" "t = q ! i"
      "w1 = w\<lparr>crawlqueue_col := q[i := (q ! i)\<lparr>start_time := Some now1\<rparr>]\<rparr>"
    | i where "find_one (expired deadline) q = Some i"
      "t = q ! i" "w1 = w\<lparr>crawlqueue_col := q[i := (q ! i)\<lparr>start_time := Some now3\<rparr>]\<rparr>"
    unfolding q_def deadline_def by auto
  then show ?thesis
  proof cases
    case 1
    from find_one_sorted_Some [OF 1(1)] have "i < length q" by simp
    with 1(2,3) show ?thesis unfolding q_def by blast
  next
    case 2
    from find_one_Some [OF 2(1)] have "i < length q" by simp
    with 2(2,3) show ?thesis unfolding q_def by blast
  qed
qed

lemma find_one_append:
  "find_one P xs = Some i \<Longrightarrow> find_one P (xs @ ys) = Some i"
  by (auto simp: find_one_eq_Some nth_append)

lemma distinct_same_key:
  assumes "distinct (map f xs)" "u \<in> set xs" "i < length xs" "f u = f (xs ! i)"
  shows "u = xs ! i"
proof -
  from assms(1) have "inj_on f (set xs)" by (simp add: distinct_map)
  moreover from assms(3) have "xs ! i \<in> set xs" by simp
  ultimately show ?thesis using assms(2,4) by (auto dest: inj_onD)
qed

lemma set_crawl_task_completed_at:
  assumes "find_one (\<lambda>d. task_id d = tid) (crawlqueue_col w) = Some i"
  shows "set_crawl_task_completed tid err now w =
           w\<lparr>crawlqueue_col := (crawlqueue_col w)[i :=
               (if err \<noteq> None \<and> err \<noteq> Some 0
                then (crawlqueue_col w ! i)\<lparr>end_time := Some now, error := err\<rparr>
                else (crawlqueue_col w ! i)\<lparr>end_time := Some now\<rparr>)]\<rparr>"
  using assms by (simp add: set_crawl_task_completed_def find_one_and_update_def Let_def)

lemma reset_crawl_task_found:
  assumes "find_one (\<lambda>d. task_id d = tid) (crawlqueue_col w) = Some i"
  shows "reset_crawl_task tid w =
           w\<lparr>crawlqueue_col := (crawlqueue_col w)[i :=
               (crawlqueue_col w ! i)\<lparr>start_time := None, end_time := None\<rparr>]\<rparr>"
  using assms by (simp add: reset_crawl_task_def find_one_and_update_def)

lemma execute_unknown:
  assumes "k \<noteq> SIMILAR" "k \<noteq> CREATOR" "k \<noteq> DETAILS"
  shows "execute_crawl_task conf ps k d w = Inr (w\<lparr>logged := logged w @ [UnknownCrawlTask k]\<rparr>)"
  using assms by (simp add: execute_crawl_task_def)
section \<open>A task of an unknown kind\<close>

text \<open>
  C8. When the claim returns a task whose kind is none of the three and no signal
  arrives, the turn of the loop asks the catalog nothing: \<open>execute_crawl_task\<close> logs the
  warning and changes nothing else, and the task is marked completed with the fourth
  clock reading and without an error (its \<open>error\<close> field is as it was). That is the
  state in which the turn ends: a loop of this one turn stops in it, and a longer loop
  goes on from it. The catalog and the files are as before. With distinct
  identifiers, no later claim on that state returns the task, at any clock readings.
\<close>

theorem unknown_kind_is_retired:
  assumes ids: "distinct (map task_id (crawlqueue_col w))"
    and claim: "get_crawl_task conf (clock1 e) (clock2 e) (clock3 e) w = (Some t, w1)"
    and kind: "task t \<noteq> SIMILAR \<and> task t \<noteq> CREATOR \<and> task t \<noteq> DETAILS"
    and nosig: "sigint e = NoSignal"
  shows "(let w' = set_crawl_task_completed (task_id t) None (clock4 e)
                     (w1\<lparr>logged := logged w1 @ [Processing (task t) (data t), UnknownCrawlTask (task t)]\<rparr>)
          in execute_crawl_task conf (catalog e) (task t) (data t) w1 =
               Inr (w1\<lparr>logged := logged w1 @ [UnknownCrawlTask (task t)]\<rparr>)
           \<and> crawl_playstore conf [e] w = (Running, w')
           \<and> crawl_playstore conf (e # es) w = crawl_playstore conf es w'
           \<and> (\<exists>i s. i < length (crawlqueue_col w) \<and> crawlqueue_col w ! i = t \<and>
                 crawlqueue_col w' =
                   (crawlqueue_col w)[i := t\<lparr>start_time := Some s, end_time := Some (clock4 e)\<rparr>])
           \<and> playstore_col w' = playstore_col w \<and> files w' = files w
           \<and> (\<forall>m1 m2 m3 u. fst (get_crawl_task conf m1 m2 m3 w') = Some u \<longrightarrow> task_id u \<noteq> task_id t))"
proof -
  define q where "q = crawlqueue_col w"
  define w2 where "w2 = w1\<lparr>logged := logged w1 @ [Processing (task t) (data t)]\<rparr>"
  define w3 where "w3 = w1\<lparr>logged := logged w1 @ [Processing (task t) (data t), UnknownCrawlTask (task t)]\<rparr>"
  define w' where "w' = set_crawl_task_completed (task_id t) None (clock4 e) w3"
  from get_crawl_task_leases [OF claim] obtain i s where
    i: "i < length q" "q ! i = t" and w1: "w1 = w\<lparr>crawlqueue_col := q[i := t\<lparr>start_time := Some s\<rparr>]\<rparr>"
    unfolding q_def by blast
  define q1 where "q1 = q[i := t\<lparr>start_time := Some s\<rparr>]"
  have ids1: "map task_id q1 = map task_id q"
    using i by (simp add: q1_def map_update list_update_same_conv)
  have q1i: "q1 ! i = t\<lparr>start_time := Some s\<rparr>" using i by (simp add: q1_def)
  have "find_one (\<lambda>d. task_id d = task_id (q1 ! i)) q1 = Some i"
    using ids ids1 i by (intro find_by_id_distinct) (simp_all add: q_def q1_def)
  then have "find_one (\<lambda>d. task_id d = task_id t) q1 = Some i"
    by (simp add: q1i)
  moreover have "crawlqueue_col w3 = q1"
    by (simp add: w3_def w1 q1_def)
  ultimately have found: "find_one (\<lambda>d. task_id d = task_id t) (crawlqueue_col w3) = Some i"
    by simp
  have q': "crawlqueue_col w' = q[i := t\<lparr>start_time := Some s, end_time := Some (clock4 e)\<rparr>]"
    unfolding w'_def set_crawl_task_completed_at [OF found]
    using i by (simp add: w3_def w1)
  have rest: "playstore_col w' = playstore_col w" "files w' = files w"
    unfolding w'_def set_crawl_task_completed_at [OF found] by (simp_all add: w3_def w1)
  have exec1: "execute_crawl_task conf (catalog e) (task t) (data t) w1 =
               Inr (w1\<lparr>logged := logged w1 @ [UnknownCrawlTask (task t)]\<rparr>)"
    using kind by (simp add: execute_unknown)
  have exec2: "execute_crawl_task conf (catalog e) (task t) (data t) w2 = Inr w3"
    using kind by (simp add: execute_unknown w2_def w3_def)
  have turn: "crawl_playstore conf (e # es') w = crawl_playstore conf es' w'" for es'
    using claim nosig exec2 by (simp add: w2_def [symmetric] w'_def Let_def during_work_def)
  from turn [of "[]"] have one: "crawl_playstore conf [e] w = (Running, w')" by simp
  have retired: "task_id u \<noteq> task_id t" if "fst (get_crawl_task conf m1 m2 m3 w') = Some u" for m1 m2 m3 u
  proof
    assume same: "task_id u = task_id t"
    let ?q' = "crawlqueue_col w'"
    from get_crawl_task_returns [OF that]
    have u: "u \<in> set ?q'" and open_: "start_time u = None \<or> (\<exists>x. start_time u = Some x \<and> end_time u = None)"
      by auto
    have "map task_id ?q' = map task_id q"
      using i by (simp add: q' map_update list_update_same_conv)
    with ids have ids': "distinct (map task_id ?q')"
      by (simp add: q_def)
    have at: "?q' ! i = t\<lparr>start_time := Some s, end_time := Some (clock4 e)\<rparr>" "i < length ?q'"
      using i by (simp_all add: q')
    from distinct_same_key [OF ids' u at(2)] same at(1) have "u = ?q' ! i" by simp
    with at(1) open_ show False by simp
  qed
  from exec1 one turn [of es] q' i rest retired show ?thesis
    unfolding Let_def w'_def [symmetric] w3_def [symmetric] q_def [symmetric] by blast
qed
text \<open>
  A queue with one task of the kind \<open>CRAWL_OTHER\<close>: the turn marks it completed at the
  fourth clock reading, writes the two log lines, and a later claim finds nothing.
\<close>

theorem unknown_kind_is_retired_witness:
  "distinct (map task_id (crawlqueue_col (world_of [queued 0 ''CRAWL_OTHER'' ''x'' None None None] [])))
   \<and> get_crawl_task conf0 (clock1 tick0) (clock2 tick0) (clock3 tick0)
        (world_of [queued 0 ''CRAWL_OTHER'' ''x'' None None None] [])
      = (Some (queued 0 ''CRAWL_OTHER'' ''x'' None None None),
         world_of [queued 0 ''CRAWL_OTHER'' ''x'' None (Some 100) None] [])
   \<and> task (queued 0 ''CRAWL_OTHER'' ''x'' None None None) \<noteq> SIMILAR
   \<and> task (queued 0 ''CRAWL_OTHER'' ''x'' None None None) \<noteq> CREATOR
   \<and> task (queued 0 ''CRAWL_OTHER'' ''x'' None None None) \<noteq> DETAILS
   \<and> sigint tick0 = NoSignal
   \<and> crawl_playstore conf0 [tick0] (world_of [queued 0 ''CRAWL_OTHER'' ''x'' None None None] [])
      = (Running,
         \<lparr>crawlqueue_col = [queued 0 ''CRAWL_OTHER'' ''x'' None (Some 100) (Some 103)],
          playstore_col = [], next_oid = 1,
          logged = [Processing ''CRAWL_OTHER'' ''x'', UnknownCrawlTask ''CRAWL_OTHER''], files = []\<rparr>)
   \<and> fst (get_crawl_task conf0 1000 1000 1000
        \<lparr>crawlqueue_col = [queued 0 ''CRAWL_OTHER'' ''x'' None (Some 100) (Some 103)],
         playstore_col = [], next_oid = 1,
         logged = [Processing ''CRAWL_OTHER'' ''x'', UnknownCrawlTask ''CRAWL_OTHER''], files = []\<rparr>) = None"
proof -
  let ?t = "queued 0 ''CRAWL_OTHER'' ''x'' None None None"
  let ?w = "world_of [?t] []"
  let ?w1 = "world_of [queued 0 ''CRAWL_OTHER'' ''x'' None (Some 100) None] []"
  let ?w' = "\<lparr>crawlqueue_col = [queued 0 ''CRAWL_OTHER'' ''x'' None (Some 100) (Some 103)],
          playstore_col = [], next_oid = 1,
          logged = [Processing ''CRAWL_OTHER'' ''x'', UnknownCrawlTask ''CRAWL_OTHER''], files = []\<rparr>"
  have ids: "distinct (map task_id (crawlqueue_col ?w))"
    by (simp add: world_of_def queued_def)
  have claim: "get_crawl_task conf0 (clock1 tick0) (clock2 tick0) (clock3 tick0) ?w = (Some ?t, ?w1)"
    by (simp add: get_crawl_task_def find_one_sorted_def find_one_and_update_def world_of_def
        queued_def not_started_def tick0_def)
  have kind: "task ?t \<noteq> SIMILAR \<and> task ?t \<noteq> CREATOR \<and> task ?t \<noteq> DETAILS"
    by (simp add: queued_def SIMILAR_def CREATOR_def DETAILS_def)
  have nosig: "sigint tick0 = NoSignal" by (simp add: tick0_def)
  have marked: "set_crawl_task_completed (task_id ?t) None (clock4 tick0)
                (?w1\<lparr>logged := logged ?w1 @ [Processing (task ?t) (data ?t), UnknownCrawlTask (task ?t)]\<rparr>) = ?w'"
    by (simp add: set_crawl_task_completed_def find_one_and_update_def world_of_def queued_def tick0_def)
  from unknown_kind_is_retired [OF ids claim kind nosig, of "[]"]
  have turn: "crawl_playstore conf0 [tick0] ?w = (Running, ?w')"
    unfolding Let_def marked by blast
  have later: "fst (get_crawl_task conf0 1000 1000 1000 ?w') = None"
    by (simp add: get_crawl_task_def find_one_sorted_def find_one_and_update_def queued_def
        not_started_def expired_def conf0_def)
  from ids claim kind nosig turn later show ?thesis by blast
qed
section \<open>Facts about the download lease\<close>

lemma get_app_undownloaded_result:
  fixes conf free_only now1 now2 now3 w
  defines "c \<equiv> playstore_col w"
    and "P1 \<equiv> (\<lambda>d. download_start_time d = None \<and> (if free_only then free_offer d else True))"
    and "P2 \<equiv> (\<lambda>d. (case download_start_time d of None \<Rightarrow> False
                       | Some s \<Rightarrow> s < now2 - real_of_int (max_download_duration_seconds conf))
                     \<and> download_end_time d = None \<and> (if free_only then free_offer d else True))"
  shows "(\<exists>i. find_one P1 c = Some i \<and>
              get_app_undownloaded conf free_only now1 now2 now3 w =
                (Some (c ! i), w\<lparr>playstore_col := c[i := (c ! i)\<lparr>download_start_time := Some now1\<rparr>]\<rparr>))
       \<or> (find_one P1 c = None \<and>
            (\<exists>i. find_one P2 c = Some i \<and>
              get_app_undownloaded conf free_only now1 now2 now3 w =
                (Some (c ! i), w\<lparr>playstore_col := c[i := (c ! i)\<lparr>download_start_time := Some now3\<rparr>]\<rparr>)))
       \<or> (find_one P1 c = None \<and> find_one P2 c = None \<and>
            get_app_undownloaded conf free_only now1 now2 now3 w = (None, w))"
proof (cases "find_one P1 c")
  case (Some i)
  then show ?thesis
    by (simp add: get_app_undownloaded_def find_one_and_update_def c_def P1_def)
next
  case None
  show ?thesis
  proof (cases "find_one P2 c")
    case inner: None
    with None show ?thesis
      by (simp add: get_app_undownloaded_def find_one_and_update_def Let_def c_def P1_def P2_def)
  next
    case (Some i)
    with None show ?thesis
      by (simp add: get_app_undownloaded_def find_one_and_update_def Let_def c_def P1_def P2_def)
  qed
qed

lemma get_app_undownloaded_leases:
  assumes "get_app_undownloaded conf free_only now1 now2 now3 w = (Some a, w1)"
  shows "\<exists>i now. i < length (playstore_col w) \<and> playstore_col w ! i = a \<and>
           w1 = w\<lparr>playstore_col := (playstore_col w)[i := a\<lparr>download_start_time := Some now\<rparr>]\<rparr>"
  using get_app_undownloaded_result [where w = w and conf = conf and free_only = free_only
      and ?now1.0 = now1 and ?now2.0 = now2 and ?now3.0 = now3] assms
  by (auto dest!: find_one_Some)

lemma get_app_undownloaded_returns:
  assumes "fst (get_app_undownloaded conf free_only now1 now2 now3 w) = Some u"
  shows "u \<in> set (playstore_col w) \<and>
         (download_start_time u = None \<or>
          (\<exists>s. download_start_time u = Some s \<and> download_end_time u = None))"
  using get_app_undownloaded_result [where w = w and conf = conf and free_only = free_only
      and ?now1.0 = now1 and ?now2.0 = now2 and ?now3.0 = now3] assms
  by (auto dest!: find_one_Some split: option.splits)

lemma set_app_downloaded_at:
  assumes "find_one (\<lambda>d. app_id d = aid) (playstore_col w) = Some i"
  shows "set_app_downloaded aid now w =
           w\<lparr>playstore_col := (playstore_col w)[i := (playstore_col w ! i)\<lparr>download_end_time := Some now\<rparr>]\<rparr>"
  using assms by (simp add: set_app_downloaded_def find_one_and_update_def)

lemma reset_app_download_found:
  assumes "find_one (\<lambda>d. app_id d = aid) (playstore_col w) = Some i"
  shows "reset_app_download aid w =
           w\<lparr>playstore_col := (playstore_col w)[i :=
               (playstore_col w ! i)\<lparr>download_start_time := None, download_end_time := None\<rparr>]\<rparr>"
  using assms by (simp add: reset_app_download_def find_one_and_update_def)

lemma download_apk_no_payload:
  assumes "download ps package version_code = Inr None \<or> download ps package version_code = Inr (Some [])"
  shows "download_apk ps package version_code output_path io_fails w = Inr w"
  using assms by (auto simp: download_apk_def)

lemma download_attempts_no_payload:
  assumes "download ps package version_code = Inr None \<or> download ps package version_code = Inr (Some [])"
  shows "download_attempts ps package version_code output_path failures w =
           Some (w\<lparr>logged := logged w @ [Downloading package version_code]\<rparr>)"
proof (cases failures)
  case None
  then show ?thesis
    by (simp add: download_attempts_def download_apk_no_payload [OF assms])
next
  case (Some n)
  then show ?thesis
    by (cases n) (simp_all add: download_attempts_def download_apk_no_payload [OF assms] Let_def)
qed
section \<open>A download without payload\<close>

text \<open>
  C4, as the code has it. When the folder has room, no signal arrives, the claim returns
  a record whose version code can be read (it has \<open>details.appDetails\<close>, so the fetch is
  reached) and the catalog has no payload for it (none, or an empty one), the turn of
  the loop writes no file and logs no error, only the line that announces the download,
  whatever the number of failing writes. But \<open>download_apk\<close> returns as it does after a
  download, and the driver calls \<open>set_app_downloaded\<close>: the record gets the fourth clock
  reading as its \<open>download_end_time\<close>, next to the \<open>download_start_time\<close> of the claim.
  That is the state in which the turn ends: a loop of this one turn stops in it, and a
  longer loop goes on from it.
  With distinct identifiers, no later claim on that state returns the record, at any
  clock readings: it is not retried.
\<close>

theorem no_payload_marks_downloaded:
  assumes ids: "distinct (map app_id (playstore_col w))"
    and room: "cur_size e < dir_size * 1000 * 1000"
    and nosig: "sigint e = NoSignal"
    and claim: "get_app_undownloaded conf True (clock1 e) (clock2 e) (clock3 e) w = (Some a, w1)"
    and version: "get_versionCode (details_appDetails a) = Inr version_code"
    and nodata: "download (catalog e) (docid a) version_code = Inr None \<or>
                 download (catalog e) (docid a) version_code = Inr (Some [])"
  shows "(let w' = set_app_downloaded (app_id a) (clock4 e)
                     (w1\<lparr>logged := logged w1 @ [Downloading (docid a) version_code]\<rparr>)
          in create_apks_pool conf output_dir dir_size [e] w = (Running, w')
           \<and> create_apks_pool conf output_dir dir_size (e # es) w =
               create_apks_pool conf output_dir dir_size es w'
           \<and> (\<exists>i s. i < length (playstore_col w) \<and> playstore_col w ! i = a \<and>
                 playstore_col w' =
                   (playstore_col w)[i := a\<lparr>download_start_time := Some s,
                                              download_end_time := Some (clock4 e)\<rparr>])
           \<and> files w' = files w
           \<and> logged w' = logged w @ [Downloading (docid a) version_code]
           \<and> crawlqueue_col w' = crawlqueue_col w
           \<and> (\<forall>free_only m1 m2 m3 u.
                 fst (get_app_undownloaded conf free_only m1 m2 m3 w') = Some u \<longrightarrow> app_id u \<noteq> app_id a))"
proof -
  define c where "c = playstore_col w"
  define w2 where "w2 = w1\<lparr>logged := logged w1 @ [Downloading (docid a) version_code]\<rparr>"
  define w' where "w' = set_app_downloaded (app_id a) (clock4 e) w2"
  from get_app_undownloaded_leases [OF claim] obtain i s where
    i: "i < length c" "c ! i = a" and w1: "w1 = w\<lparr>playstore_col := c[i := a\<lparr>download_start_time := Some s\<rparr>]\<rparr>"
    unfolding c_def by blast
  define c1 where "c1 = c[i := a\<lparr>download_start_time := Some s\<rparr>]"
  have ids1: "map app_id c1 = map app_id c"
    using i by (simp add: c1_def map_update list_update_same_conv)
  have c1i: "c1 ! i = a\<lparr>download_start_time := Some s\<rparr>" using i by (simp add: c1_def)
  have "find_one (\<lambda>d. app_id d = app_id (c1 ! i)) c1 = Some i"
    using ids ids1 i by (intro find_by_id_distinct) (simp_all add: c_def c1_def)
  then have "find_one (\<lambda>d. app_id d = app_id a) c1 = Some i"
    by (simp add: c1i)
  moreover have "playstore_col w2 = c1"
    by (simp add: w2_def w1 c1_def)
  ultimately have found: "find_one (\<lambda>d. app_id d = app_id a) (playstore_col w2) = Some i"
    by simp
  have c': "playstore_col w' = c[i := a\<lparr>download_start_time := Some s, download_end_time := Some (clock4 e)\<rparr>]"
    unfolding w'_def set_app_downloaded_at [OF found]
    using i by (simp add: w2_def w1)
  have rest: "files w' = files w" "logged w' = logged w @ [Downloading (docid a) version_code]"
    "crawlqueue_col w' = crawlqueue_col w"
    unfolding w'_def set_app_downloaded_at [OF found] by (simp_all add: w2_def w1)
  have attempts: "download_attempts (catalog e) (docid a) version_code
      (apk_path conf output_dir (docid a) version_code (app_id a)) (write_failures e) w1 = Some w2"
    unfolding w2_def by (rule download_attempts_no_payload [OF nodata])
  have turn: "create_apks_pool conf output_dir dir_size (e # es') w =
               create_apks_pool conf output_dir dir_size es' w'" for es'
    using room nosig claim version attempts by (simp add: w'_def Let_def during_work_def)
  from turn [of "[]"] have one: "create_apks_pool conf output_dir dir_size [e] w = (Running, w')"
    by simp
  have retired: "app_id u \<noteq> app_id a"
    if "fst (get_app_undownloaded conf free_only m1 m2 m3 w') = Some u" for free_only m1 m2 m3 u
  proof
    assume same: "app_id u = app_id a"
    let ?c' = "playstore_col w'"
    from get_app_undownloaded_returns [OF that]
    have u: "u \<in> set ?c'"
      and open_: "download_start_time u = None \<or> (\<exists>x. download_start_time u = Some x \<and> download_end_time u = None)"
      by auto
    have "map app_id ?c' = map app_id c"
      using i by (simp add: c' map_update list_update_same_conv)
    with ids have ids': "distinct (map app_id ?c')"
      by (simp add: c_def)
    have at: "?c' ! i = a\<lparr>download_start_time := Some s, download_end_time := Some (clock4 e)\<rparr>"
      "i < length ?c'"
      using i by (simp_all add: c')
    from distinct_same_key [OF ids' u at(2)] same at(1) have "u = ?c' ! i" by simp
    with at(1) open_ show False by simp
  qed
  from one turn [of es] c' i rest retired show ?thesis
    unfolding Let_def w'_def [symmetric] w2_def [symmetric] c_def [symmetric] by blast
qed

text \<open>
  One free record and a catalog without payload: after the turn the record has the
  \<open>download_end_time\<close> 103, no file exists, and the theorem's last part says that no
  later claim returns the record.
\<close>

theorem no_payload_marks_downloaded_witness:
  "distinct (map app_id (playstore_col (world_of [] [app0])))
   \<and> cur_size dtick0 < 100 * 1000 * 1000
   \<and> sigint dtick0 = NoSignal
   \<and> get_app_undownloaded conf0 True (clock1 dtick0) (clock2 dtick0) (clock3 dtick0) (world_of [] [app0])
      = (Some app0, world_of [] [app0\<lparr>download_start_time := Some 100\<rparr>])
   \<and> get_versionCode (details_appDetails app0) = Inr (Some 7)
   \<and> download (catalog dtick0) (docid app0) (Some 7) = Inr None
   \<and> create_apks_pool conf0 ''out'' 100 [dtick0] (world_of [] [app0])
      = (Running,
         \<lparr>crawlqueue_col = [],
          playstore_col = [app0\<lparr>download_start_time := Some 100, download_end_time := Some 103\<rparr>],
          next_oid = 1, logged = [Downloading ''com.example.app'' (Some 7)], files = []\<rparr>)"
proof -
  let ?w = "world_of [] [app0]"
  let ?w1 = "world_of [] [app0\<lparr>download_start_time := Some 100\<rparr>]"
  let ?w' = "\<lparr>crawlqueue_col = [],
          playstore_col = [app0\<lparr>download_start_time := Some 100, download_end_time := Some 103\<rparr>],
          next_oid = 1, logged = [Downloading ''com.example.app'' (Some 7)], files = []\<rparr>"
  have ids: "distinct (map app_id (playstore_col ?w))" by (simp add: world_of_def)
  have room: "cur_size dtick0 < 100 * 1000 * 1000" by (simp add: dtick0_def)
  have nosig: "sigint dtick0 = NoSignal" by (simp add: dtick0_def)
  have claim: "get_app_undownloaded conf0 True (clock1 dtick0) (clock2 dtick0) (clock3 dtick0) ?w = (Some app0, ?w1)"
    by (simp add: get_app_undownloaded_def find_one_and_update_def world_of_def app0_def free_offer_def dtick0_def)
  have version: "get_versionCode (details_appDetails app0) = Inr (Some 7)"
    by (simp add: get_versionCode_def app0_def)
  have nodata: "download (catalog dtick0) (docid app0) (Some 7) = Inr None"
    by (simp add: dtick0_def ps_none_def)
  have marked: "set_app_downloaded (app_id app0) (clock4 dtick0)
      (?w1\<lparr>logged := logged ?w1 @ [Downloading (docid app0) (Some 7)]\<rparr>) = ?w'"
    by (simp add: set_app_downloaded_def find_one_and_update_def world_of_def app0_def dtick0_def)
  from no_payload_marks_downloaded [OF ids room nosig claim version disjI1 [OF nodata], of "''out''" "[]"]
  have "create_apks_pool conf0 ''out'' 100 [dtick0] ?w = (Running, ?w')"
    unfolding Let_def marked by blast
  with ids room nosig claim version nodata show ?thesis by blast
qed

text \<open>
  C4 as stated fails: on the same input the record does not stay without
  \<open>download_end_time\<close>, and a claim long after the lease of 600 seconds has run out
  returns nothing, so the record is not retried.
\<close>

theorem no_payload_record_is_completed:
  "map download_end_time
     (playstore_col (snd (create_apks_pool conf0 ''out'' 100 [dtick0] (world_of [] [app0])))) = [Some 103]
   \<and> fst (get_app_undownloaded conf0 True 10000 10000 10000
        (snd (create_apks_pool conf0 ''out'' 100 [dtick0] (world_of [] [app0])))) = None"
  by (simp add: get_app_undownloaded_def set_app_downloaded_def find_one_and_update_def world_of_def
      app0_def free_offer_def dtick0_def ps_none_def download_attempts_def download_apk_def conf0_def
      Let_def get_versionCode_def during_work_def)
section \<open>Facts about a turn of the crawl loop\<close>

lemma dump_queue: "crawlqueue_col (dump conf entries w) = crawlqueue_col w"
  by (simp add: dump_def split: prod.splits)

lemma set_similar_apps_queue: "crawlqueue_col (set_similar_apps p ps w) = crawlqueue_col w"
  by (simp add: set_similar_apps_def split: prod.splits)

lemma enqueue_appends:
  "\<exists>new. crawlqueue_col (enqueue_crawl_tasks conf ts w) = crawlqueue_col w @ new"
proof -
  obtain col' n' errs where
    run: "insert_many task_key (task_fault conf) new_task ts (crawlqueue_col w) (next_oid w) = (col', n', errs)"
    by (metis prod_cases3)
  from insert_many_appends [OF run] obtain new where "col' = crawlqueue_col w @ new" by blast
  with enqueue_crawl_tasks_eq [OF run] show ?thesis by simp
qed

lemma dump_data_appends:
  "\<exists>new. crawlqueue_col (dump_data conf bulk w) = crawlqueue_col w @ new"
  using enqueue_appends [of conf _ "dump conf _ w"]
  by (simp add: dump_data_def Let_def dump_queue)

lemma dump_data_details_appends:
  assumes "dump_data_details conf details w = Inr w3"
  shows "\<exists>new. crawlqueue_col w3 = crawlqueue_col w @ new"
proof -
  from assms obtain entries ts where "w3 = enqueue_crawl_tasks conf ts (dump conf entries w)"
    by (auto simp: dump_data_details_def split: sum.splits)
  with enqueue_appends [of conf ts "dump conf entries w"] show ?thesis
    by (simp add: dump_queue)
qed

lemma execute_appends:
  assumes "execute_crawl_task conf ps k d w = Inr w3"
  shows "\<exists>new. crawlqueue_col w3 = crawlqueue_col w @ new"
proof -
  consider "k = SIMILAR" | "k \<noteq> SIMILAR" "k = CREATOR" | "k \<noteq> SIMILAR" "k \<noteq> CREATOR" "k = DETAILS"
    | "k \<noteq> SIMILAR" "k \<noteq> CREATOR" "k \<noteq> DETAILS" by blast
  then show ?thesis
  proof cases
    case 1
    with assms obtain bulk where "w3 = dump_data conf bulk (set_similar_apps d (map docid bulk) w)"
      by (auto simp: execute_crawl_task_def crawl_similar_def split: sum.splits)
    with dump_data_appends [of conf bulk "set_similar_apps d (map docid bulk) w"] show ?thesis
      by (simp add: set_similar_apps_queue)
  next
    case 2
    with assms obtain bulk where "w3 = dump_data conf bulk w"
      by (auto simp: execute_crawl_task_def crawl_creator_def split: sum.splits)
    with dump_data_appends [of conf bulk w] show ?thesis by simp
  next
    case 3
    with assms obtain details where "dump_data_details conf details w = Inr w3"
      by (auto simp: execute_crawl_task_def crawl_details_def split: sum.splits prod.splits)
    then show ?thesis by (rule dump_data_details_appends)
  next
    case 4
    with assms execute_unknown [of k conf ps d w] show ?thesis by auto
  qed
qed

lemma execute_crawl_task_writes:
  "execute_crawl_task conf ps k d w =
     (case crawl_writes conf ps k d of
        Inl e \<Rightarrow> Inl e
      | Inr writes \<Rightarrow> Inr (fold (\<lambda>step. step) writes w))"
  by (auto simp: execute_crawl_task_def crawl_writes_def crawl_similar_def crawl_creator_def
      crawl_details_def dump_data_def dump_data_writes_def dump_data_details_def Let_def
      split: sum.splits prod.splits)

lemma dump_data_writes_append:
  assumes "step \<in> set (dump_data_writes conf bulk)"
  shows "\<exists>new. crawlqueue_col (step w) = crawlqueue_col w @ new"
  using assms enqueue_appends [of conf _ w]
  by (auto simp: dump_data_writes_def Let_def dump_queue)

lemma crawl_writes_append:
  assumes "crawl_writes conf ps k d = Inr writes" "step \<in> set writes"
  shows "\<exists>new. crawlqueue_col (step w) = crawlqueue_col w @ new"
proof -
  consider "k = SIMILAR" | "k \<noteq> SIMILAR" "k = CREATOR" | "k \<noteq> SIMILAR" "k \<noteq> CREATOR" "k = DETAILS"
    | "k \<noteq> SIMILAR" "k \<noteq> CREATOR" "k \<noteq> DETAILS" by blast
  then show ?thesis
  proof cases
    case 1
    with assms obtain bulk where "writes = set_similar_apps d (map docid bulk) # dump_data_writes conf bulk"
      by (auto simp: crawl_writes_def split: sum.splits)
    with assms(2) dump_data_writes_append [of step conf bulk w] show ?thesis
      by (auto simp: set_similar_apps_queue)
  next
    case 2
    with assms obtain bulk where "writes = dump_data_writes conf bulk"
      by (auto simp: crawl_writes_def split: sum.splits)
    with assms(2) dump_data_writes_append [of step conf bulk w] show ?thesis by simp
  next
    case 3
    with assms obtain entries ts where "writes = [dump conf entries, enqueue_crawl_tasks conf ts]"
      by (auto simp: crawl_writes_def split: sum.splits prod.splits)
    with assms(2) enqueue_appends [of conf ts w] show ?thesis
      by (auto simp: dump_queue)
  next
    case 4
    with assms show ?thesis by (auto simp: crawl_writes_def)
  qed
qed

lemma fold_writes_append:
  assumes "\<And>step w. step \<in> set writes \<Longrightarrow> \<exists>new. crawlqueue_col (step w) = crawlqueue_col w @ new"
  shows "\<exists>new. crawlqueue_col (fold (\<lambda>step. step) writes w) = crawlqueue_col w @ new"
  using assms
proof (induction writes arbitrary: w)
  case Nil
  then show ?case by simp
next
  case (Cons a writes)
  from Cons.prems [of a w] obtain n1 where n1: "crawlqueue_col (a w) = crawlqueue_col w @ n1" by auto
  from Cons.IH [of "a w"] Cons.prems obtain n2 where
    "crawlqueue_col (fold (\<lambda>step. step) writes (a w)) = crawlqueue_col (a w) @ n2"
    by auto
  with n1 show ?case by simp
qed

lemma find_one_update:
  "find_one P xs = Some i \<Longrightarrow> P x \<Longrightarrow> find_one P (xs[i := x]) = Some i"
  by (auto simp: find_one_eq_Some nth_list_update)

lemma reset_makes_pending:
  assumes "find_one (\<lambda>d. task_id d = tid) (crawlqueue_col v) = Some i"
  shows "i < length (crawlqueue_col (reset_crawl_task tid v)) \<and>
         crawlqueue_col (reset_crawl_task tid v) ! i =
           (crawlqueue_col v ! i)\<lparr>start_time := None, end_time := None\<rparr>"
  using find_one_Some [OF assms] by (simp add: reset_crawl_task_found [OF assms])

text \<open>The state of the queue in which the driver holds the task \<open>t\<close> at position \<open>i\<close>.\<close>

lemma held_after_claim:
  assumes ids: "distinct (map task_id (crawlqueue_col w))"
    and claim: "get_crawl_task conf now1 now2 now3 w = (Some t, w1)"
  shows "\<exists>i. i < length (crawlqueue_col w) \<and> crawlqueue_col w ! i = t \<and>
           find_one (\<lambda>d. task_id d = task_id t) (crawlqueue_col w1) = Some i \<and>
           task_id (crawlqueue_col w1 ! i) = task_id t \<and> data (crawlqueue_col w1 ! i) = data t \<and>
           task (crawlqueue_col w1 ! i) = task t"
proof -
  define q where "q = crawlqueue_col w"
  from get_crawl_task_leases [OF claim] obtain i s where
    i: "i < length q" "q ! i = t" and w1: "w1 = w\<lparr>crawlqueue_col := q[i := t\<lparr>start_time := Some s\<rparr>]\<rparr>"
    unfolding q_def by blast
  define q1 where "q1 = q[i := t\<lparr>start_time := Some s\<rparr>]"
  have ids1: "map task_id q1 = map task_id q"
    using i by (simp add: q1_def map_update list_update_same_conv)
  have q1i: "q1 ! i = t\<lparr>start_time := Some s\<rparr>" using i by (simp add: q1_def)
  have "find_one (\<lambda>d. task_id d = task_id (q1 ! i)) q1 = Some i"
    using ids ids1 i by (intro find_by_id_distinct) (simp_all add: q_def q1_def)
  then have "find_one (\<lambda>d. task_id d = task_id t) q1 = Some i"
    by (simp add: q1i)
  moreover have "crawlqueue_col w1 = q1" by (simp add: w1 q1_def)
  ultimately show ?thesis using i q1i unfolding q_def by auto
qed

lemma crawl_playstore_cancelled:
  assumes ids: "distinct (map task_id (crawlqueue_col w))"
    and claim: "get_crawl_task conf (clock1 e) (clock2 e) (clock3 e) w = (Some t, w1)"
    and sig: "sigint e = AfterClaim \<or>
              (((\<exists>n. sigint e = DuringWork n) \<or> sigint e = AfterWork \<or> sigint e = AfterCompleted) \<and>
               ((\<exists>h. execute_crawl_task conf (catalog e) (task t) (data t)
                        (w1\<lparr>logged := logged w1 @ [Processing (task t) (data t)]\<rparr>) = Inl (RequestError h)) \<or>
                (\<exists>w3. execute_crawl_task conf (catalog e) (task t) (data t)
                        (w1\<lparr>logged := logged w1 @ [Processing (task t) (data t)]\<rparr>) = Inr w3)))"
  shows "\<exists>w' i. crawl_playstore conf (e # es) w = (Cancelled, w') \<and>
           i < length (crawlqueue_col w) \<and> crawlqueue_col w ! i = t \<and>
           i < length (crawlqueue_col w') \<and>
           task_id (crawlqueue_col w' ! i) = task_id t \<and> data (crawlqueue_col w' ! i) = data t \<and>
           task (crawlqueue_col w' ! i) = task t \<and>
           start_time (crawlqueue_col w' ! i) = None \<and> end_time (crawlqueue_col w' ! i) = None"
proof -
  define w2 where "w2 = w1\<lparr>logged := logged w1 @ [Processing (task t) (data t)]\<rparr>"
  from held_after_claim [OF ids claim] obtain i where
    i: "i < length (crawlqueue_col w)" "crawlqueue_col w ! i = t"
    and found1: "find_one (\<lambda>d. task_id d = task_id t) (crawlqueue_col w1) = Some i"
    and same1: "task_id (crawlqueue_col w1 ! i) = task_id t" "data (crawlqueue_col w1 ! i) = data t"
      "task (crawlqueue_col w1 ! i) = task t"
    by blast
  have goal: "\<exists>w'. crawl_playstore conf (e # es) w = (Cancelled, w') \<and>
           i < length (crawlqueue_col w') \<and>
           task_id (crawlqueue_col w' ! i) = task_id t \<and> data (crawlqueue_col w' ! i) = data t \<and>
           task (crawlqueue_col w' ! i) = task t \<and>
           start_time (crawlqueue_col w' ! i) = None \<and> end_time (crawlqueue_col w' ! i) = None"
    if run: "crawl_playstore conf (e # es) w = (Cancelled, reset_crawl_task (task_id t) v)"
      and found: "find_one (\<lambda>d. task_id d = task_id t) (crawlqueue_col v) = Some i"
      and same: "task_id (crawlqueue_col v ! i) = task_id t" "data (crawlqueue_col v ! i) = data t"
        "task (crawlqueue_col v ! i) = task t"
    for v
    using run reset_makes_pending [OF found] same by simp
  have worked: "\<exists>err w3.
      crawl_playstore conf (e # es) w =
        (if sigint e = AfterWork
         then (Cancelled, reset_crawl_task (task_id t) (w3\<lparr>logged := logged w3 @ [Interrupted]\<rparr>))
         else (Cancelled, reset_crawl_task (task_id t)
                 ((set_crawl_task_completed (task_id t) err (clock4 e) w3)
                    \<lparr>logged := logged (set_crawl_task_completed (task_id t) err (clock4 e) w3) @ [Interrupted]\<rparr>)))
      \<and> (\<exists>new. crawlqueue_col w3 = crawlqueue_col w1 @ new)"
    if ns: "sigint e \<noteq> AfterClaim" and nd: "\<And>n. sigint e \<noteq> DuringWork n"
  proof -
    from sig ns nd have s: "sigint e = AfterWork \<or> sigint e = AfterCompleted"
      and x: "(\<exists>h. execute_crawl_task conf (catalog e) (task t) (data t)
                        (w1\<lparr>logged := logged w1 @ [Processing (task t) (data t)]\<rparr>) = Inl (RequestError h)) \<or>
                (\<exists>w3. execute_crawl_task conf (catalog e) (task t) (data t)
                        (w1\<lparr>logged := logged w1 @ [Processing (task t) (data t)]\<rparr>) = Inr w3)"
      by auto
    from s have nb: "sigint e \<noteq> BeforeClaim" "sigint e \<noteq> OutsideTry" "sigint e \<noteq> InsideClaim"
      "during_work (sigint e) = None"
      by (auto simp: during_work_def)
    from x show ?thesis
    proof
      assume "\<exists>h. execute_crawl_task conf (catalog e) (task t) (data t)
                        (w1\<lparr>logged := logged w1 @ [Processing (task t) (data t)]\<rparr>) = Inl (RequestError h)"
      then obtain h where r: "execute_crawl_task conf (catalog e) (task t) (data t)
                        (w1\<lparr>logged := logged w1 @ [Processing (task t) (data t)]\<rparr>) = Inl (RequestError h)"
        by blast
      have "crawl_playstore conf (e # es) w =
        (if sigint e = AfterWork
         then (Cancelled, reset_crawl_task (task_id t) (w2\<lparr>logged := logged w2 @ [Interrupted]\<rparr>))
         else (Cancelled, reset_crawl_task (task_id t)
                 ((set_crawl_task_completed (task_id t) (Some h) (clock4 e) w2)
                    \<lparr>logged := logged (set_crawl_task_completed (task_id t) (Some h) (clock4 e) w2) @ [Interrupted]\<rparr>)))"
        using claim nb ns s r by (auto simp: Let_def w2_def)
      moreover have "\<exists>new. crawlqueue_col w2 = crawlqueue_col w1 @ new" by (simp add: w2_def)
      ultimately show ?thesis by blast
    next
      assume "\<exists>w3. execute_crawl_task conf (catalog e) (task t) (data t)
                        (w1\<lparr>logged := logged w1 @ [Processing (task t) (data t)]\<rparr>) = Inr w3"
      then obtain w3 where r: "execute_crawl_task conf (catalog e) (task t) (data t)
                        (w1\<lparr>logged := logged w1 @ [Processing (task t) (data t)]\<rparr>) = Inr w3"
        by blast
      have "crawl_playstore conf (e # es) w =
        (if sigint e = AfterWork
         then (Cancelled, reset_crawl_task (task_id t) (w3\<lparr>logged := logged w3 @ [Interrupted]\<rparr>))
         else (Cancelled, reset_crawl_task (task_id t)
                 ((set_crawl_task_completed (task_id t) None (clock4 e) w3)
                    \<lparr>logged := logged (set_crawl_task_completed (task_id t) None (clock4 e) w3) @ [Interrupted]\<rparr>)))"
        using claim nb ns s r by (auto simp: Let_def)
      moreover from execute_appends [OF r] have "\<exists>new. crawlqueue_col w3 = crawlqueue_col w1 @ new"
        by simp
      ultimately show ?thesis by blast
    qed
  qed
  have "\<exists>w'. crawl_playstore conf (e # es) w = (Cancelled, w') \<and>
           i < length (crawlqueue_col w') \<and>
           task_id (crawlqueue_col w' ! i) = task_id t \<and> data (crawlqueue_col w' ! i) = data t \<and>
           task (crawlqueue_col w' ! i) = task t \<and>
           start_time (crawlqueue_col w' ! i) = None \<and> end_time (crawlqueue_col w' ! i) = None"
  proof (cases "sigint e = AfterClaim")
    case claimed: True
    let ?v = "w1\<lparr>logged := logged w1 @ [Interrupted]\<rparr>"
    have run: "crawl_playstore conf (e # es) w = (Cancelled, reset_crawl_task (task_id t) ?v)"
      using claim claimed by simp
    have found: "find_one (\<lambda>d. task_id d = task_id t) (crawlqueue_col ?v) = Some i"
      using found1 by simp
    have same: "task_id (crawlqueue_col ?v ! i) = task_id t" "data (crawlqueue_col ?v ! i) = data t"
      "task (crawlqueue_col ?v ! i) = task t"
      using same1 by simp_all
    show ?thesis by (rule goal [OF run found same])
  next
    case False
    show ?thesis
    proof (cases "\<exists>n. sigint e = DuringWork n")
      case True
      then obtain n where during: "sigint e = DuringWork n" by blast
      from sig during have "(\<exists>h. execute_crawl_task conf (catalog e) (task t) (data t) w2 = Inl (RequestError h)) \<or>
                (\<exists>w3. execute_crawl_task conf (catalog e) (task t) (data t) w2 = Inr w3)"
        unfolding w2_def by auto
      then have "(\<exists>h. crawl_writes conf (catalog e) (task t) (data t) = Inl (RequestError h)) \<or>
                (\<exists>writes. crawl_writes conf (catalog e) (task t) (data t) = Inr writes)"
        by (auto simp: execute_crawl_task_writes split: sum.splits)
      then show ?thesis
      proof
        assume "\<exists>h. crawl_writes conf (catalog e) (task t) (data t) = Inl (RequestError h)"
        then obtain h where r: "crawl_writes conf (catalog e) (task t) (data t) = Inl (RequestError h)"
          by blast
        let ?v = "w2\<lparr>logged := logged w2 @ [Interrupted]\<rparr>"
        have run: "crawl_playstore conf (e # es) w = (Cancelled, reset_crawl_task (task_id t) ?v)"
          using claim during r by (simp add: Let_def during_work_def w2_def)
        have found: "find_one (\<lambda>d. task_id d = task_id t) (crawlqueue_col ?v) = Some i"
          using found1 by (simp add: w2_def)
        have same: "task_id (crawlqueue_col ?v ! i) = task_id t" "data (crawlqueue_col ?v ! i) = data t"
          "task (crawlqueue_col ?v ! i) = task t"
          using same1 by (simp_all add: w2_def)
        show ?thesis by (rule goal [OF run found same])
      next
        assume "\<exists>writes. crawl_writes conf (catalog e) (task t) (data t) = Inr writes"
        then obtain writes where r: "crawl_writes conf (catalog e) (task t) (data t) = Inr writes"
          by blast
        define w3 where "w3 = fold (\<lambda>step. step) (take n writes) w2"
        let ?v = "w3\<lparr>logged := logged w3 @ [Interrupted]\<rparr>"
        have run: "crawl_playstore conf (e # es) w = (Cancelled, reset_crawl_task (task_id t) ?v)"
          using claim during r by (simp add: Let_def during_work_def w2_def w3_def)
        have each: "\<exists>new. crawlqueue_col (step v) = crawlqueue_col v @ new" if "step \<in> set (take n writes)" for step v
          using crawl_writes_append [OF r in_set_takeD [OF that]] .
        have "\<exists>new. crawlqueue_col (fold (\<lambda>step. step) (take n writes) w2) = crawlqueue_col w2 @ new"
          by (rule fold_writes_append) (rule each)
        then obtain new where q3: "crawlqueue_col w3 = crawlqueue_col w1 @ new"
          unfolding w3_def by (auto simp: w2_def)
        from find_one_append [OF found1] have found3: "find_one (\<lambda>d. task_id d = task_id t) (crawlqueue_col ?v) = Some i"
          by (simp add: q3)
        from find_one_Some [OF found1] have "i < length (crawlqueue_col w1)" by simp
        then have "crawlqueue_col ?v ! i = crawlqueue_col w1 ! i"
          by (simp add: q3 nth_append)
        with same1 have same: "task_id (crawlqueue_col ?v ! i) = task_id t" "data (crawlqueue_col ?v ! i) = data t"
          "task (crawlqueue_col ?v ! i) = task t"
          by simp_all
        show ?thesis by (rule goal [OF run found3 same])
      qed
    next
      case nd: False
      then have nd': "sigint e \<noteq> DuringWork n" for n by blast
    from worked [OF False nd'] obtain err w3 new where
      turn: "crawl_playstore conf (e # es) w =
        (if sigint e = AfterWork
         then (Cancelled, reset_crawl_task (task_id t) (w3\<lparr>logged := logged w3 @ [Interrupted]\<rparr>))
         else (Cancelled, reset_crawl_task (task_id t)
                 ((set_crawl_task_completed (task_id t) err (clock4 e) w3)
                    \<lparr>logged := logged (set_crawl_task_completed (task_id t) err (clock4 e) w3) @ [Interrupted]\<rparr>)))"
      and q3: "crawlqueue_col w3 = crawlqueue_col w1 @ new"
      by blast
    from find_one_append [OF found1] have found3: "find_one (\<lambda>d. task_id d = task_id t) (crawlqueue_col w3) = Some i"
      by (simp add: q3)
    from find_one_Some [OF found1] have i1: "i < length (crawlqueue_col w1)" by simp
    then have at3: "crawlqueue_col w3 ! i = crawlqueue_col w1 ! i"
      by (simp add: q3 nth_append)
    show ?thesis
    proof (cases "sigint e = AfterWork")
      case True
      let ?v = "w3\<lparr>logged := logged w3 @ [Interrupted]\<rparr>"
      have run: "crawl_playstore conf (e # es) w = (Cancelled, reset_crawl_task (task_id t) ?v)"
        using turn True by simp
      have found: "find_one (\<lambda>d. task_id d = task_id t) (crawlqueue_col ?v) = Some i"
        using found3 by simp
      have same: "task_id (crawlqueue_col ?v ! i) = task_id t" "data (crawlqueue_col ?v ! i) = data t"
        "task (crawlqueue_col ?v ! i) = task t"
        using same1 at3 by simp_all
      show ?thesis by (rule goal [OF run found same])
    next
      case notwork: False
      define w4 where "w4 = set_crawl_task_completed (task_id t) err (clock4 e) w3"
      let ?v = "w4\<lparr>logged := logged w4 @ [Interrupted]\<rparr>"
      have run: "crawl_playstore conf (e # es) w = (Cancelled, reset_crawl_task (task_id t) ?v)"
        using turn notwork by (simp add: w4_def)
      let ?d = "if err \<noteq> None \<and> err \<noteq> Some 0
                then (crawlqueue_col w3 ! i)\<lparr>end_time := Some (clock4 e), error := err\<rparr>
                else (crawlqueue_col w3 ! i)\<lparr>end_time := Some (clock4 e)\<rparr>"
      have q4: "crawlqueue_col w4 = (crawlqueue_col w3)[i := ?d]"
        unfolding w4_def set_crawl_task_completed_at [OF found3] by simp
      have d: "task_id ?d = task_id t" "data ?d = data t" "task ?d = task t"
        using same1 at3 by simp_all
      from find_one_update [OF found3, of ?d] d(1)
      have found4: "find_one (\<lambda>d. task_id d = task_id t) (crawlqueue_col ?v) = Some i"
        by (simp add: q4)
      from find_one_Some [OF found3] have "i < length (crawlqueue_col w3)" by simp
      then have "crawlqueue_col ?v ! i = ?d" by (simp add: q4)
      with d have same: "task_id (crawlqueue_col ?v ! i) = task_id t" "data (crawlqueue_col ?v ! i) = data t"
        "task (crawlqueue_col ?v ! i) = task t"
        by simp_all
      show ?thesis by (rule goal [OF run found4 same])
    qed
    qed
  qed
  with i show ?thesis by blast
qed
section \<open>Facts about a turn of the download loop\<close>

lemma download_apk_frame:
  "download_apk ps p v path f w = Inr w2 \<Longrightarrow> playstore_col w2 = playstore_col w"
  by (auto simp: download_apk_def split: sum.splits option.splits if_splits)

lemma download_retry_frame:
  "playstore_col (download_retry ps p v path n w) = playstore_col w"
proof (induction n arbitrary: w)
  case 0
  show ?case
    by (auto simp: Let_def split: sum.splits dest: download_apk_frame)
next
  case (Suc n)
  show ?case
    by (auto simp: Let_def Suc.IH split: sum.splits dest: download_apk_frame)
qed

lemma download_attempts_frame:
  "download_attempts ps p v path failures w = Some w2 \<Longrightarrow> playstore_col w2 = playstore_col w"
  by (auto simp: download_attempts_def download_retry_frame split: option.splits sum.splits
      dest: download_apk_frame)

lemma download_interrupted_frame:
  "playstore_col (download_interrupted ps p v path w) = playstore_col w"
  by (auto simp: download_interrupted_def split: sum.splits option.splits)

lemma download_partial_frame:
  "playstore_col (download_partial ps p v path n w) = playstore_col w"
proof (induction n arbitrary: w)
  case 0
  show ?case by (simp add: download_interrupted_frame)
next
  case (Suc n)
  show ?case
    by (auto simp: Let_def Suc.IH split: sum.splits dest: download_apk_frame)
qed

lemma held_after_download_claim:
  assumes ids: "distinct (map app_id (playstore_col w))"
    and claim: "get_app_undownloaded conf free_only now1 now2 now3 w = (Some a, w1)"
  shows "\<exists>i s. i < length (playstore_col w) \<and> playstore_col w ! i = a \<and>
           playstore_col w1 = (playstore_col w)[i := a\<lparr>download_start_time := Some s\<rparr>] \<and>
           find_one (\<lambda>d. app_id d = app_id a) (playstore_col w1) = Some i"
proof -
  define c where "c = playstore_col w"
  from get_app_undownloaded_leases [OF claim] obtain i s where
    i: "i < length c" "c ! i = a" and w1: "w1 = w\<lparr>playstore_col := c[i := a\<lparr>download_start_time := Some s\<rparr>]\<rparr>"
    unfolding c_def by blast
  define c1 where "c1 = c[i := a\<lparr>download_start_time := Some s\<rparr>]"
  have ids1: "map app_id c1 = map app_id c"
    using i by (simp add: c1_def map_update list_update_same_conv)
  have c1i: "c1 ! i = a\<lparr>download_start_time := Some s\<rparr>" using i by (simp add: c1_def)
  have "find_one (\<lambda>d. app_id d = app_id (c1 ! i)) c1 = Some i"
    using ids ids1 i by (intro find_by_id_distinct) (simp_all add: c_def c1_def)
  then have "find_one (\<lambda>d. app_id d = app_id a) c1 = Some i"
    by (simp add: c1i)
  moreover have "playstore_col w1 = c1" by (simp add: w1 c1_def)
  ultimately have "i < length (playstore_col w) \<and> playstore_col w ! i = a \<and>
           playstore_col w1 = (playstore_col w)[i := a\<lparr>download_start_time := Some s\<rparr>] \<and>
           find_one (\<lambda>d. app_id d = app_id a) (playstore_col w1) = Some i"
    using i unfolding c_def c1_def by simp
  then show ?thesis by blast
qed

lemma create_apks_pool_cancelled:
  assumes ids: "distinct (map app_id (playstore_col w))"
    and room: "cur_size e < dir_size * 1000 * 1000"
    and claim: "get_app_undownloaded conf True (clock1 e) (clock2 e) (clock3 e) w = (Some a, w1)"
    and sig: "sigint e = AfterClaim \<or>
              (get_versionCode (details_appDetails a) = Inr version_code \<and>
               ((\<exists>n. sigint e = DuringWork n) \<or>
                ((sigint e = AfterWork \<or> sigint e = AfterCompleted) \<and>
                 download_attempts (catalog e) (docid a) version_code
                   (apk_path conf output_dir (docid a) version_code (app_id a)) (write_failures e) w1 \<noteq> None)))"
  shows "\<exists>w' i. create_apks_pool conf output_dir dir_size (e # es) w = (Cancelled, w') \<and>
           i < length (playstore_col w) \<and> playstore_col w ! i = a \<and>
           playstore_col w' =
             (playstore_col w)[i := a\<lparr>download_start_time := None, download_end_time := None\<rparr>]"
proof -
  define c where "c = playstore_col w"
  from held_after_download_claim [OF ids claim] obtain i s where
    i: "i < length c" "c ! i = a"
    and c1: "playstore_col w1 = c[i := a\<lparr>download_start_time := Some s\<rparr>]"
    and found1: "find_one (\<lambda>d. app_id d = app_id a) (playstore_col w1) = Some i"
    unfolding c_def by blast
  have goal: "\<exists>w'. create_apks_pool conf output_dir dir_size (e # es) w = (Cancelled, w') \<and>
           playstore_col w' = c[i := a\<lparr>download_start_time := None, download_end_time := None\<rparr>]"
    if run: "create_apks_pool conf output_dir dir_size (e # es) w = (Cancelled, reset_app_download (app_id a) v)"
      and col: "playstore_col v = c[i := a\<lparr>download_start_time := Some s\<rparr>]"
    for v
  proof -
    from found1 c1 col have "find_one (\<lambda>d. app_id d = app_id a) (playstore_col v) = Some i" by simp
    from reset_app_download_found [OF this] col i
    have "playstore_col (reset_app_download (app_id a) v) =
            c[i := a\<lparr>download_start_time := None, download_end_time := None\<rparr>]"
      by simp
    with run show ?thesis by blast
  qed
  have "\<exists>w'. create_apks_pool conf output_dir dir_size (e # es) w = (Cancelled, w') \<and>
           playstore_col w' = c[i := a\<lparr>download_start_time := None, download_end_time := None\<rparr>]"
  proof (cases "sigint e = AfterClaim")
    case True
    let ?v = "w1\<lparr>logged := logged w1 @ [Interrupted]\<rparr>"
    have run: "create_apks_pool conf output_dir dir_size (e # es) w = (Cancelled, reset_app_download (app_id a) ?v)"
      using room claim True by simp
    have col: "playstore_col ?v = c[i := a\<lparr>download_start_time := Some s\<rparr>]"
      using c1 by simp
    show ?thesis by (rule goal [OF run col])
  next
    case False
    with sig have version: "get_versionCode (details_appDetails a) = Inr version_code"
      and later: "(\<exists>n. sigint e = DuringWork n) \<or>
                ((sigint e = AfterWork \<or> sigint e = AfterCompleted) \<and>
                 download_attempts (catalog e) (docid a) version_code
                   (apk_path conf output_dir (docid a) version_code (app_id a)) (write_failures e) w1 \<noteq> None)"
      by auto
    show ?thesis
    proof (cases "\<exists>n. sigint e = DuringWork n")
      case True
      then obtain n where during: "sigint e = DuringWork n" by blast
      define w2 where "w2 = download_partial (catalog e) (docid a) version_code
          (apk_path conf output_dir (docid a) version_code (app_id a)) n w1"
      let ?v = "w2\<lparr>logged := logged w2 @ [Interrupted]\<rparr>"
      have run: "create_apks_pool conf output_dir dir_size (e # es) w = (Cancelled, reset_app_download (app_id a) ?v)"
        using room claim version during by (simp add: Let_def during_work_def w2_def)
      have col: "playstore_col ?v = c[i := a\<lparr>download_start_time := Some s\<rparr>]"
        using c1 by (simp add: w2_def download_partial_frame)
      show ?thesis by (rule goal [OF run col])
    next
      case nd: False
      with later have s: "sigint e = AfterWork \<or> sigint e = AfterCompleted"
        and "download_attempts (catalog e) (docid a) version_code
                   (apk_path conf output_dir (docid a) version_code (app_id a)) (write_failures e) w1 \<noteq> None"
        by auto
      then obtain w2 where att: "download_attempts (catalog e) (docid a) version_code
                   (apk_path conf output_dir (docid a) version_code (app_id a)) (write_failures e) w1 = Some w2"
        by auto
      from download_attempts_frame [OF att] c1
      have c2: "playstore_col w2 = c[i := a\<lparr>download_start_time := Some s\<rparr>]" by simp
      from s have nb: "sigint e \<noteq> BeforeClaim" "sigint e \<noteq> OutsideTry" "sigint e \<noteq> InsideClaim"
        "during_work (sigint e) = None"
        by (auto simp: during_work_def)
      show ?thesis
      proof (cases "sigint e = AfterWork")
        case True
        let ?v = "w2\<lparr>logged := logged w2 @ [Interrupted]\<rparr>"
        have run: "create_apks_pool conf output_dir dir_size (e # es) w = (Cancelled, reset_app_download (app_id a) ?v)"
          using room claim nb False version att True by (simp add: Let_def)
        have col: "playstore_col ?v = c[i := a\<lparr>download_start_time := Some s\<rparr>]"
          using c2 by simp
        show ?thesis by (rule goal [OF run col])
      next
        case notwork: False
        with s have ac: "sigint e = AfterCompleted" by simp
        define w3 where "w3 = set_app_downloaded (app_id a) (clock4 e) w2"
        let ?v = "w3\<lparr>logged := logged w3 @ [Interrupted]\<rparr>"
        have run: "create_apks_pool conf output_dir dir_size (e # es) w = (Cancelled, reset_app_download (app_id a) ?v)"
          using room claim nb False version att notwork ac by (simp add: w3_def Let_def)
        from found1 c1 c2 have found2: "find_one (\<lambda>d. app_id d = app_id a) (playstore_col w2) = Some i"
          by simp
        have c3: "playstore_col w3 =
            c[i := a\<lparr>download_start_time := Some s, download_end_time := Some (clock4 e)\<rparr>]"
          unfolding w3_def set_app_downloaded_at [OF found2] using i by (simp add: c2)
        from find_one_update [OF found2, of "a\<lparr>download_start_time := Some s, download_end_time := Some (clock4 e)\<rparr>"]
        have found3: "find_one (\<lambda>d. app_id d = app_id a) (playstore_col ?v) = Some i"
          using i by (simp add: c3 c2)
        from reset_app_download_found [OF found3] c3 i
        have "playstore_col (reset_app_download (app_id a) ?v) =
              c[i := a\<lparr>download_start_time := None, download_end_time := None\<rparr>]"
          by simp
        with run show ?thesis by blast
      qed
    qed
  qed
  with i show ?thesis unfolding c_def by blast
qed
section \<open>Cancellation\<close>

text \<open>
  C6, as the code has it. The signal arrives in one turn of a driver's loop, at one of
  the places of the \<open>tick\<close>. In the crawl loop: outside the \<open>try\<close> block the exception
  leaves the loop and the state is untouched; before the claim has written to the store
  the loop ends and nothing is reset, the state is as before but for the printed line;
  after the claim has handed a task to the loop, whether the task was not yet executed,
  was in the middle of its writes, was executed (with or without a \<open>RequestError\<close>), or
  was already marked completed, the loop ends and the task, still at its place in the
  queue with its identifier, subject and kind, has neither \<open>start_time\<close> nor \<open>end_time\<close>.
  In the download loop: outside the block, before the claim, or while the loop sleeps
  on a full folder, the loop ends and nothing is reset; after the claim has handed a
  record to the loop, at any of the later places (the version code being readable and
  the inner loop having ended for the two last ones), the loop ends and the catalog is
  as it was before the turn except that the record has neither \<open>download_start_time\<close>
  nor \<open>download_end_time\<close>. Identifiers are distinct in both collections. The place
  inside the claim, where the store has written the lease and the loop does not hold
  the item yet, is not part of this statement.
\<close>

theorem cancellation_resets_held_item:
  "(sigint e = OutsideTry \<longrightarrow> crawl_playstore conf (e # es) w = (Raised KeyboardInterrupt, w))
   \<and> (sigint e = BeforeClaim \<longrightarrow>
      crawl_playstore conf (e # es) w = (Cancelled, w\<lparr>logged := logged w @ [Interrupted]\<rparr>))
   \<and> (distinct (map task_id (crawlqueue_col w)) \<and>
       get_crawl_task conf (clock1 e) (clock2 e) (clock3 e) w = (Some t, w1) \<and>
       (sigint e = AfterClaim \<or>
        (((\<exists>n. sigint e = DuringWork n) \<or> sigint e = AfterWork \<or> sigint e = AfterCompleted) \<and>
         ((\<exists>h. execute_crawl_task conf (catalog e) (task t) (data t)
                  (w1\<lparr>logged := logged w1 @ [Processing (task t) (data t)]\<rparr>) = Inl (RequestError h)) \<or>
          (\<exists>w3. execute_crawl_task conf (catalog e) (task t) (data t)
                  (w1\<lparr>logged := logged w1 @ [Processing (task t) (data t)]\<rparr>) = Inr w3)))) \<longrightarrow>
       (\<exists>w' i. crawl_playstore conf (e # es) w = (Cancelled, w') \<and>
           i < length (crawlqueue_col w) \<and> crawlqueue_col w ! i = t \<and>
           i < length (crawlqueue_col w') \<and>
           task_id (crawlqueue_col w' ! i) = task_id t \<and> data (crawlqueue_col w' ! i) = data t \<and>
           task (crawlqueue_col w' ! i) = task t \<and>
           start_time (crawlqueue_col w' ! i) = None \<and> end_time (crawlqueue_col w' ! i) = None))
   \<and> (sigint d = OutsideTry \<longrightarrow>
       create_apks_pool conf output_dir dir_size (d # ds) v = (Raised KeyboardInterrupt, v))
   \<and> (sigint d = BeforeClaim \<or>
       (\<not> cur_size d < dir_size * 1000 * 1000 \<and> sigint d \<noteq> NoSignal \<and> sigint d \<noteq> OutsideTry) \<longrightarrow>
       create_apks_pool conf output_dir dir_size (d # ds) v = (Cancelled, v\<lparr>logged := logged v @ [Interrupted]\<rparr>))
   \<and> (distinct (map app_id (playstore_col v)) \<and>
       cur_size d < dir_size * 1000 * 1000 \<and>
       get_app_undownloaded conf True (clock1 d) (clock2 d) (clock3 d) v = (Some a, v1) \<and>
       (sigint d = AfterClaim \<or>
        (get_versionCode (details_appDetails a) = Inr version_code \<and>
         ((\<exists>n. sigint d = DuringWork n) \<or>
          ((sigint d = AfterWork \<or> sigint d = AfterCompleted) \<and>
           download_attempts (catalog d) (docid a) version_code
             (apk_path conf output_dir (docid a) version_code (app_id a)) (write_failures d) v1 \<noteq> None)))) \<longrightarrow>
       (\<exists>v' i. create_apks_pool conf output_dir dir_size (d # ds) v = (Cancelled, v') \<and>
           i < length (playstore_col v) \<and> playstore_col v ! i = a \<and>
           playstore_col v' =
             (playstore_col v)[i := a\<lparr>download_start_time := None, download_end_time := None\<rparr>]))"
proof -
  have c0: "sigint e = OutsideTry \<longrightarrow> crawl_playstore conf (e # es) w = (Raised KeyboardInterrupt, w)"
    by simp
  have c1: "sigint e = BeforeClaim \<longrightarrow>
      crawl_playstore conf (e # es) w = (Cancelled, w\<lparr>logged := logged w @ [Interrupted]\<rparr>)"
    by simp
  have c2: "distinct (map task_id (crawlqueue_col w)) \<and>
       get_crawl_task conf (clock1 e) (clock2 e) (clock3 e) w = (Some t, w1) \<and>
       (sigint e = AfterClaim \<or>
        (((\<exists>n. sigint e = DuringWork n) \<or> sigint e = AfterWork \<or> sigint e = AfterCompleted) \<and>
         ((\<exists>h. execute_crawl_task conf (catalog e) (task t) (data t)
                  (w1\<lparr>logged := logged w1 @ [Processing (task t) (data t)]\<rparr>) = Inl (RequestError h)) \<or>
          (\<exists>w3. execute_crawl_task conf (catalog e) (task t) (data t)
                  (w1\<lparr>logged := logged w1 @ [Processing (task t) (data t)]\<rparr>) = Inr w3)))) \<longrightarrow>
       (\<exists>w' i. crawl_playstore conf (e # es) w = (Cancelled, w') \<and>
           i < length (crawlqueue_col w) \<and> crawlqueue_col w ! i = t \<and>
           i < length (crawlqueue_col w') \<and>
           task_id (crawlqueue_col w' ! i) = task_id t \<and> data (crawlqueue_col w' ! i) = data t \<and>
           task (crawlqueue_col w' ! i) = task t \<and>
           start_time (crawlqueue_col w' ! i) = None \<and> end_time (crawlqueue_col w' ! i) = None)"
  proof
    assume h: "distinct (map task_id (crawlqueue_col w)) \<and>
       get_crawl_task conf (clock1 e) (clock2 e) (clock3 e) w = (Some t, w1) \<and>
       (sigint e = AfterClaim \<or>
        (((\<exists>n. sigint e = DuringWork n) \<or> sigint e = AfterWork \<or> sigint e = AfterCompleted) \<and>
         ((\<exists>h. execute_crawl_task conf (catalog e) (task t) (data t)
                  (w1\<lparr>logged := logged w1 @ [Processing (task t) (data t)]\<rparr>) = Inl (RequestError h)) \<or>
          (\<exists>w3. execute_crawl_task conf (catalog e) (task t) (data t)
                  (w1\<lparr>logged := logged w1 @ [Processing (task t) (data t)]\<rparr>) = Inr w3))))"
    from h have ids: "distinct (map task_id (crawlqueue_col w))" by (rule conjunct1)
    from h have claim: "get_crawl_task conf (clock1 e) (clock2 e) (clock3 e) w = (Some t, w1)"
      by (rule conjunct2 [THEN conjunct1])
    from h have sig: "sigint e = AfterClaim \<or>
        (((\<exists>n. sigint e = DuringWork n) \<or> sigint e = AfterWork \<or> sigint e = AfterCompleted) \<and>
         ((\<exists>h. execute_crawl_task conf (catalog e) (task t) (data t)
                  (w1\<lparr>logged := logged w1 @ [Processing (task t) (data t)]\<rparr>) = Inl (RequestError h)) \<or>
          (\<exists>w3. execute_crawl_task conf (catalog e) (task t) (data t)
                  (w1\<lparr>logged := logged w1 @ [Processing (task t) (data t)]\<rparr>) = Inr w3)))"
      by (rule conjunct2 [THEN conjunct2])
    show "\<exists>w' i. crawl_playstore conf (e # es) w = (Cancelled, w') \<and>
           i < length (crawlqueue_col w) \<and> crawlqueue_col w ! i = t \<and>
           i < length (crawlqueue_col w') \<and>
           task_id (crawlqueue_col w' ! i) = task_id t \<and> data (crawlqueue_col w' ! i) = data t \<and>
           task (crawlqueue_col w' ! i) = task t \<and>
           start_time (crawlqueue_col w' ! i) = None \<and> end_time (crawlqueue_col w' ! i) = None"
      by (rule crawl_playstore_cancelled [OF ids claim sig])
  qed
  have d0: "sigint d = OutsideTry \<longrightarrow>
       create_apks_pool conf output_dir dir_size (d # ds) v = (Raised KeyboardInterrupt, v)"
    by simp
  have d1: "sigint d = BeforeClaim \<or>
       (\<not> cur_size d < dir_size * 1000 * 1000 \<and> sigint d \<noteq> NoSignal \<and> sigint d \<noteq> OutsideTry) \<longrightarrow>
       create_apks_pool conf output_dir dir_size (d # ds) v = (Cancelled, v\<lparr>logged := logged v @ [Interrupted]\<rparr>)"
    by auto
  have d2: "distinct (map app_id (playstore_col v)) \<and>
       cur_size d < dir_size * 1000 * 1000 \<and>
       get_app_undownloaded conf True (clock1 d) (clock2 d) (clock3 d) v = (Some a, v1) \<and>
       (sigint d = AfterClaim \<or>
        (get_versionCode (details_appDetails a) = Inr version_code \<and>
         ((\<exists>n. sigint d = DuringWork n) \<or>
          ((sigint d = AfterWork \<or> sigint d = AfterCompleted) \<and>
           download_attempts (catalog d) (docid a) version_code
             (apk_path conf output_dir (docid a) version_code (app_id a)) (write_failures d) v1 \<noteq> None)))) \<longrightarrow>
       (\<exists>v' i. create_apks_pool conf output_dir dir_size (d # ds) v = (Cancelled, v') \<and>
           i < length (playstore_col v) \<and> playstore_col v ! i = a \<and>
           playstore_col v' =
             (playstore_col v)[i := a\<lparr>download_start_time := None, download_end_time := None\<rparr>])"
  proof
    assume h: "distinct (map app_id (playstore_col v)) \<and>
       cur_size d < dir_size * 1000 * 1000 \<and>
       get_app_undownloaded conf True (clock1 d) (clock2 d) (clock3 d) v = (Some a, v1) \<and>
       (sigint d = AfterClaim \<or>
        (get_versionCode (details_appDetails a) = Inr version_code \<and>
         ((\<exists>n. sigint d = DuringWork n) \<or>
          ((sigint d = AfterWork \<or> sigint d = AfterCompleted) \<and>
           download_attempts (catalog d) (docid a) version_code
             (apk_path conf output_dir (docid a) version_code (app_id a)) (write_failures d) v1 \<noteq> None))))"
    from h have ids: "distinct (map app_id (playstore_col v))" by (rule conjunct1)
    from h have room: "cur_size d < dir_size * 1000 * 1000" by (rule conjunct2 [THEN conjunct1])
    from h have claim: "get_app_undownloaded conf True (clock1 d) (clock2 d) (clock3 d) v = (Some a, v1)"
      by (rule conjunct2 [THEN conjunct2, THEN conjunct1])
    from h have sig: "sigint d = AfterClaim \<or>
        (get_versionCode (details_appDetails a) = Inr version_code \<and>
         ((\<exists>n. sigint d = DuringWork n) \<or>
          ((sigint d = AfterWork \<or> sigint d = AfterCompleted) \<and>
           download_attempts (catalog d) (docid a) version_code
             (apk_path conf output_dir (docid a) version_code (app_id a)) (write_failures d) v1 \<noteq> None)))"
      by (rule conjunct2 [THEN conjunct2, THEN conjunct2])
    show "\<exists>v' i. create_apks_pool conf output_dir dir_size (d # ds) v = (Cancelled, v') \<and>
           i < length (playstore_col v) \<and> playstore_col v ! i = a \<and>
           playstore_col v' =
             (playstore_col v)[i := a\<lparr>download_start_time := None, download_end_time := None\<rparr>]"
      by (rule create_apks_pool_cancelled [OF ids room claim sig])
  qed
  from c0 c1 c2 d0 d1 d2 show ?thesis by (intro conjI)
qed

text \<open>
  The crawl loop, interrupted after it marked a \<open>DETAILS\<close> task completed with the status
  404: the task is pending again (the status stays in \<open>error\<close>). The download loop,
  interrupted in its inner loop before any write: the record is as before the claim.
\<close>

theorem cancellation_resets_held_item_witness:
  "distinct (map task_id (crawlqueue_col (world_of [queued 0 DETAILS ''a'' None None None] [])))
   \<and> get_crawl_task conf0 (clock1 (tick0\<lparr>sigint := AfterCompleted\<rparr>)) (clock2 (tick0\<lparr>sigint := AfterCompleted\<rparr>))
        (clock3 (tick0\<lparr>sigint := AfterCompleted\<rparr>)) (world_of [queued 0 DETAILS ''a'' None None None] [])
      = (Some (queued 0 DETAILS ''a'' None None None),
         world_of [queued 0 DETAILS ''a'' None (Some 100) None] [])
   \<and> sigint (tick0\<lparr>sigint := AfterCompleted\<rparr>) = AfterCompleted
   \<and> execute_crawl_task conf0 (catalog (tick0\<lparr>sigint := AfterCompleted\<rparr>)) DETAILS ''a''
        ((world_of [queued 0 DETAILS ''a'' None (Some 100) None] [])
           \<lparr>logged := [Processing DETAILS ''a'']\<rparr>) = Inl (RequestError 404)
   \<and> fst (crawl_playstore conf0 [tick0\<lparr>sigint := AfterCompleted\<rparr>]
        (world_of [queued 0 DETAILS ''a'' None None None] [])) = Cancelled
   \<and> crawl_playstore conf0 [tick0\<lparr>sigint := AfterCompleted\<rparr>]
        (world_of [queued 0 DETAILS ''a'' None None None] [])
      = (Cancelled,
         \<lparr>crawlqueue_col = [(queued 0 DETAILS ''a'' None None None)\<lparr>error := Some 404\<rparr>],
          playstore_col = [], next_oid = 1,
          logged = [Processing DETAILS ''a'', Interrupted], files = []\<rparr>)
   \<and> create_apks_pool conf0 ''out'' 100 [dtick0\<lparr>sigint := DuringWork 0\<rparr>] (world_of [] [app0])
      = (Cancelled, (world_of [] [app0])\<lparr>logged := [Downloading ''com.example.app'' (Some 7), Interrupted]\<rparr>)"
proof -
  let ?e = "tick0\<lparr>sigint := AfterCompleted\<rparr>"
  let ?t = "queued 0 DETAILS ''a'' None None None"
  let ?w = "world_of [?t] []"
  let ?w1 = "world_of [queued 0 DETAILS ''a'' None (Some 100) None] []"
  have ids: "distinct (map task_id (crawlqueue_col ?w))"
    by (simp add: world_of_def queued_def)
  have claim: "get_crawl_task conf0 (clock1 ?e) (clock2 ?e) (clock3 ?e) ?w = (Some ?t, ?w1)"
    by (simp add: get_crawl_task_def find_one_sorted_def find_one_and_update_def world_of_def
        queued_def not_started_def tick0_def)
  have sig: "sigint ?e = AfterCompleted" by simp
  have exec: "execute_crawl_task conf0 (catalog ?e) DETAILS ''a'' (?w1\<lparr>logged := [Processing DETAILS ''a'']\<rparr>)
      = Inl (RequestError 404)"
    by (simp add: execute_crawl_task_def crawl_details_def tick0_def ps_none_def kinds_differ
        kinds_differ [symmetric])
  have exec': "execute_crawl_task conf0 (catalog ?e) (task ?t) (data ?t)
      (?w1\<lparr>logged := logged ?w1 @ [Processing (task ?t) (data ?t)]\<rparr>) = Inl (RequestError 404)"
    using exec by (simp add: queued_def world_of_def)
  from cancellation_resets_held_item [where e = ?e and conf = conf0 and es = "[]" and w = ?w
      and t = ?t and ?w1.0 = ?w1] ids claim sig exec'
  have "\<exists>w' i. crawl_playstore conf0 [?e] ?w = (Cancelled, w')"
    by blast
  then have cancelled: "fst (crawl_playstore conf0 [?e] ?w) = Cancelled" by auto
  have run: "crawl_playstore conf0 [?e] ?w
      = (Cancelled,
         \<lparr>crawlqueue_col = [?t\<lparr>error := Some 404\<rparr>],
          playstore_col = [], next_oid = 1,
          logged = [Processing DETAILS ''a'', Interrupted], files = []\<rparr>)"
    using claim exec'
    by (simp add: Let_def set_crawl_task_completed_def reset_crawl_task_def find_one_and_update_def
        world_of_def queued_def tick0_def during_work_def)
  have drun: "create_apks_pool conf0 ''out'' 100 [dtick0\<lparr>sigint := DuringWork 0\<rparr>] (world_of [] [app0])
      = (Cancelled, (world_of [] [app0])\<lparr>logged := [Downloading ''com.example.app'' (Some 7), Interrupted]\<rparr>)"
    by (simp add: get_app_undownloaded_def reset_app_download_def find_one_and_update_def world_of_def
        app0_def free_offer_def dtick0_def get_versionCode_def during_work_def Let_def
        download_interrupted_def ps_none_def)
  from ids claim sig exec cancelled run drun show ?thesis by blast
qed

text \<open>
  C6 as stated fails: a signal inside \<open>get_crawl_task\<close>, after the store has written the
  lease and before the loop holds the task, ends the loop with the task left leased at
  time 100, and a claim at time 120, within the lease of 60 seconds, finds nothing. The
  download loop leaves its record leased in the same way.
\<close>

theorem cancellation_inside_claim_keeps_lease:
  "crawl_playstore conf0 [tick0\<lparr>sigint := InsideClaim\<rparr>]
      (world_of [queued 0 DETAILS ''a'' None None None] [])
     = (Cancelled, (world_of [queued 0 DETAILS ''a'' None (Some 100) None] [])\<lparr>logged := [Interrupted]\<rparr>)
   \<and> fst (get_crawl_task conf0 120 120 120
        ((world_of [queued 0 DETAILS ''a'' None (Some 100) None] [])\<lparr>logged := [Interrupted]\<rparr>)) = None
   \<and> create_apks_pool conf0 ''out'' 100 [dtick0\<lparr>sigint := InsideClaim\<rparr>] (world_of [] [app0])
     = (Cancelled, (world_of [] [app0\<lparr>download_start_time := Some 100\<rparr>])\<lparr>logged := [Interrupted]\<rparr>)"
  by (simp add: get_crawl_task_def find_one_sorted_def find_one_and_update_def world_of_def
      queued_def not_started_def expired_def conf0_def tick0_def dtick0_def
      get_app_undownloaded_def app0_def free_offer_def)

end
